theory Spec2Isabelle
  imports Main
begin

section \<open>Cleanup scopes and jump lowering of \<open>ir/irfunction.cpp\<close>\<close>

text \<open>
  The development embeds the scope stack of the function-level code generator:
  the cleanup multiplexer \<open>executeCleanup\<close>, the unwinding operations
  \<open>runCleanups\<close> and \<open>popCleanups\<close>, the loop, switch and label targets and
  the forward-goto resolver.  Pointers are modelled by their identity (a natural
  number); every \<open>assert\<close> of the source (as in a build with assertions
  enabled) and every dereference of a null result is a branch returning an
  error.  Selector constants and the loop counters of the source are unsigned
  machine integers; they count exit targets and cleanup scopes of one function,
  stay far below the 32-bit range, and are modelled by \<open>nat\<close>.
\<close>

subsection \<open>The target IR\<close>

type_synonym block = nat
type_synonym slot = nat
type_synonym ident = nat
type_synonym stmt = nat
type_synonym loc = nat

text \<open>
  The instructions the scope stack creates or looks at.  \<open>Store v p\<close> stores the
  32-bit constant \<open>v\<close> into slot \<open>p\<close>; \<open>Load p\<close> loads slot \<open>p\<close>;
  \<open>Switch p d cs\<close> is the switch keyed on the value loaded from \<open>p\<close> with default
  destination \<open>d\<close> and cases \<open>cs\<close>.  \<open>Other\<close> stands for any instruction without
  block operands that is not a terminator.
\<close>

datatype inst =
    Store nat slot
  | Load slot
  | Br block
  | CondBr block block
  | Switch slot block "(nat \<times> block) list"
  | Ret
  | Other nat

record IRState =
  code :: "block \<Rightarrow> inst list"
  funcBlocks :: "block list"
  nextFresh :: block
  allocas :: "block list"
  scopebb :: block

datatype error = AssertionFailed | NullTerminator | BadCast | EmptyVector

fun isTerminator :: "inst \<Rightarrow> bool" where
  "isTerminator (Br _) = True"
| "isTerminator (CondBr _ _) = True"
| "isTerminator (Switch _ _ _) = True"
| "isTerminator Ret = True"
| "isTerminator _ = False"

text \<open>
  Modelled from the spec: the IR builder is an external collaborator; its
  operations are modelled here as the spec's section on external interfaces and
  the calls in the source describe them.  \<open>getTerminator\<close> is the last
  instruction of a block when that is a terminator, and null otherwise.
\<close>

definition getTerminator :: "inst list \<Rightarrow> inst option" where
  "getTerminator is = (if is \<noteq> [] \<and> isTerminator (last is) then Some (last is) else None)"

text \<open>
  Modelled from the spec: append an instruction at the end of a block
  (\<open>BranchInst::Create(dest, block)\<close>, \<open>new LoadInst(p, "", block)\<close>,
  \<open>SwitchInst::Create(v, d, n, block)\<close>, and \<open>irs->ir->CreateBr(dest)\<close>, whose
  insertion point is the end of the current block \<open>irs->scopebb()\<close>).
\<close>

definition appendInst :: "block \<Rightarrow> inst \<Rightarrow> IRState \<Rightarrow> IRState" where
  "appendInst b i ir = ir\<lparr>code := (code ir)(b := code ir b @ [i])\<rparr>"

text \<open>
  Modelled from the spec: \<open>new StoreInst(v, p, block->getTerminator())\<close> links
  the store immediately before the terminator.  When the block has no
  terminator the insertion point is null and the instruction is created
  without being linked into any block.
\<close>

definition insertBeforeTerminator :: "block \<Rightarrow> inst \<Rightarrow> IRState \<Rightarrow> IRState" where
  "insertBeforeTerminator b i ir =
     (case getTerminator (code ir b) of
        None \<Rightarrow> ir
      | Some t \<Rightarrow> ir\<lparr>code := (code ir)(b := butlast (code ir b) @ [i, t])\<rparr>)"

text \<open>
  Modelled from the spec: \<open>new AllocaInst(i32, "branchsel." + name, topallocapoint)\<close>
  adds one 32-bit integer slot before the alloca point of the function entry.
  The slots are kept in creation order, each with the block that names it; a
  slot is identified by its position.
\<close>

definition createAlloca :: "block \<Rightarrow> IRState \<Rightarrow> slot \<times> IRState" where
  "createAlloca name ir = (length (allocas ir), ir\<lparr>allocas := allocas ir @ [name]\<rparr>)"

fun substBlock :: "block \<Rightarrow> block \<Rightarrow> block \<Rightarrow> block" where
  "substBlock old new b = (if b = old then new else b)"

fun substInst :: "block \<Rightarrow> block \<Rightarrow> inst \<Rightarrow> inst" where
  "substInst old new (Br b) = Br (substBlock old new b)"
| "substInst old new (CondBr b c) = CondBr (substBlock old new b) (substBlock old new c)"
| "substInst old new (Switch p d cs) =
     Switch p (substBlock old new d) (map (\<lambda>(v, b). (v, substBlock old new b)) cs)"
| "substInst old new i = i"

text \<open>
  Modelled from the spec: \<open>old->replaceAllUsesWith(new)\<close> rewrites every block
  operand equal to \<open>old\<close>, in every instruction, to \<open>new\<close>.  The source
  calls it with two different blocks only.
\<close>

definition replaceAllUsesWith :: "block \<Rightarrow> block \<Rightarrow> IRState \<Rightarrow> IRState" where
  "replaceAllUsesWith old new ir = ir\<lparr>code := (\<lambda>b. map (substInst old new) (code ir b))\<rparr>"

text \<open>
  Modelled from the spec: \<open>BasicBlock::Create(context, name, topfunc)\<close> makes a
  new, empty block and appends it to the function's block list;
  \<open>eraseFromParent\<close> on a block unlinks it from the function and deletes it
  with its instructions.
\<close>

definition createBlock :: "IRState \<Rightarrow> block \<times> IRState" where
  "createBlock ir =
     (nextFresh ir,
      ir\<lparr>code := (code ir)(nextFresh ir := []),
         funcBlocks := funcBlocks ir @ [nextFresh ir],
         nextFresh := Suc (nextFresh ir)\<rparr>)"

definition eraseBlock :: "block \<Rightarrow> IRState \<Rightarrow> IRState" where
  "eraseBlock b ir = ir\<lparr>code := (code ir)(b := []), funcBlocks := removeAll b (funcBlocks ir)\<rparr>"

fun instUses :: "inst \<Rightarrow> block set" where
  "instUses (Br b) = {b}"
| "instUses (CondBr b c) = {b, c}"
| "instUses (Switch p d cs) = insert d (snd ` set cs)"
| "instUses _ = {}"

subsection \<open>Data model of the scope stack\<close>

text \<open>
  Modelled from the spec: the types of the scope stack are declared in the
  header of the source file, which is not among the sources.  The records have
  the fields the source file reads and writes, in the order of its aggregate
  initialisers, with the meaning the data model of the specification gives
  them.  The two constructors make an exit target without source blocks and a
  scope without exit targets, selector and unresolved gotos.
\<close>

record CleanupExitTarget =
  branchTarget :: block
  sourceBlocks :: "block list"

record GotoJump =
  sourceLoc :: loc
  sourceBlock :: block
  tentativeTarget :: block
  targetLabel :: ident

record CleanupScope =
  beginBlock :: block
  endBlock :: block
  exitTargets :: "CleanupExitTarget list"
  branchSelector :: "slot option"
  unresolvedGotos :: "GotoJump list"

record JumpTarget =
  targetBlock :: block
  cleanupScope :: nat
  targetStatement :: stmt

record ScopeStack =
  irs :: IRState
  cleanupScopes :: "CleanupScope list"
  continueTargets :: "JumpTarget list"
  breakTargets :: "JumpTarget list"
  labelTargets :: "ident \<rightharpoonup> JumpTarget"
  topLevelUnresolvedGotos :: "GotoJump list"

definition CleanupExitTarget :: "block \<Rightarrow> CleanupExitTarget" where
  "CleanupExitTarget t = \<lparr>branchTarget = t, sourceBlocks = []\<rparr>"

definition CleanupScope :: "block \<Rightarrow> block \<Rightarrow> CleanupScope" where
  "CleanupScope b e =
     \<lparr>beginBlock = b, endBlock = e, exitTargets = [], branchSelector = None,
      unresolvedGotos = []\<rparr>"

subsection \<open>The cleanup multiplexer\<close>

definition pushSource :: "block \<Rightarrow> CleanupExitTarget \<Rightarrow> CleanupExitTarget" where
  "pushSource b t = t\<lparr>sourceBlocks := sourceBlocks t @ [b]\<rparr>"

text \<open>
  Lines 40 to 69: when the scope has no selector yet, one is created, the value
  0 is stored before the terminator of every source block of the only exit
  target, and the terminator of the end block is erased and replaced by a load
  of the selector and a switch with the only exit target as default.  The
  result carries the selector of the scope.
\<close>

definition createSelector ::
  "IRState \<Rightarrow> CleanupScope \<Rightarrow> error + slot \<times> IRState \<times> CleanupScope" where
  "createSelector ir scope =
     (case branchSelector scope of
        Some sel \<Rightarrow> Inr (sel, ir, scope)
      | None \<Rightarrow>
          (let (sel, ir1) = createAlloca (beginBlock scope) ir;
               ir2 = fold (\<lambda>b. insertBeforeTerminator b (Store 0 sel))
                       (sourceBlocks (hd (exitTargets scope))) ir1
           in case getTerminator (code ir2 (endBlock scope)) of
                None \<Rightarrow> Inl NullTerminator
              | Some t \<Rightarrow>
                  (let ir3 = ir2\<lparr>code := (code ir2)
                               (endBlock scope := butlast (code ir2 (endBlock scope)))\<rparr>;
                       ir4 = appendInst (endBlock scope) (Load sel) ir3;
                       ir5 = appendInst (endBlock scope)
                               (Switch sel (branchTarget (exitTargets scope ! 0)) []) ir4
                   in Inr (sel, ir5, scope\<lparr>branchSelector := Some sel\<rparr>))))"

text \<open>Lines 74 to 89: the index of the first exit target with the requested destination.\<close>

fun findExitTarget :: "CleanupExitTarget list \<Rightarrow> block \<Rightarrow> nat \<Rightarrow> nat option" where
  "findExitTarget [] continueWith i = None"
| "findExitTarget (t # ts) continueWith i =
     (if branchTarget t = continueWith then Some i else findExitTarget ts continueWith (Suc i))"

text \<open>Lines 93 and 94: \<open>cast<SwitchInst>(endBlock->getTerminator())->addCase(v, dest)\<close>.\<close>

definition addCase :: "block \<Rightarrow> nat \<Rightarrow> block \<Rightarrow> IRState \<Rightarrow> error + IRState" where
  "addCase b v dest ir =
     (case getTerminator (code ir b) of
        Some (Switch p d cs) \<Rightarrow>
          Inr (ir\<lparr>code := (code ir)(b := butlast (code ir b) @ [Switch p d (cs @ [(v, dest)])])\<rparr>)
      | _ \<Rightarrow> Inl BadCast)"

text \<open>
  \<open>executeCleanup(irs, scope, sourceBlock, continueWith)\<close>.  The scope is passed
  by reference in the source; the model returns the updated IR and scope.
\<close>

definition executeCleanup ::
  "IRState \<Rightarrow> CleanupScope \<Rightarrow> block \<Rightarrow> block \<Rightarrow> error + IRState \<times> CleanupScope" where
  "executeCleanup ir scope srcBlock continueWith =
     (if exitTargets scope = [] \<or>
         (length (exitTargets scope) = 1 \<and>
          branchTarget (exitTargets scope ! 0) = continueWith)
      then
        (if branchSelector scope \<noteq> None then Inl AssertionFailed
         else
           (let (ir1, scope1) =
                  (if exitTargets scope = []
                   then (appendInst (endBlock scope) (Br continueWith) ir,
                         scope\<lparr>exitTargets := exitTargets scope @ [CleanupExitTarget continueWith]\<rparr>)
                   else (ir, scope))
            in Inr (ir1,
                    scope1\<lparr>exitTargets :=
                      pushSource srcBlock (hd (exitTargets scope1)) # tl (exitTargets scope1)\<rparr>)))
      else
        (case createSelector ir scope of
           Inl e \<Rightarrow> Inl e
         | Inr (sel, ir1, scope1) \<Rightarrow>
             (case findExitTarget (exitTargets scope1) continueWith 0 of
                Some i \<Rightarrow>
                  Inr (insertBeforeTerminator srcBlock (Store i sel) ir1,
                       scope1\<lparr>exitTargets :=
                         (exitTargets scope1)[i := pushSource srcBlock (exitTargets scope1 ! i)]\<rparr>)
              | None \<Rightarrow>
                  (let selectorVal = length (exitTargets scope1)
                   in case addCase (endBlock scope1) selectorVal continueWith ir1 of
                        Inl e \<Rightarrow> Inl e
                      | Inr ir2 \<Rightarrow>
                          Inr (insertBeforeTerminator srcBlock (Store selectorVal sel) ir2,
                               scope1\<lparr>exitTargets :=
                                 exitTargets scope1 @
                                   [pushSource srcBlock (CleanupExitTarget continueWith)]\<rparr>)))))"

subsection \<open>The scope stack\<close>

text \<open>
  Modelled from the spec: \<open>currentCleanupScope()\<close> is declared in the header of
  the scope stack, which is not among the sources; the cleanup cursor is the
  number of cleanup scopes currently active.
\<close>

definition currentCleanupScope :: "ScopeStack \<Rightarrow> nat" where
  "currentCleanupScope s = length (cleanupScopes s)"

definition pushCleanup :: "block \<Rightarrow> block \<Rightarrow> ScopeStack \<Rightarrow> ScopeStack" where
  "pushCleanup beginB endB s = s\<lparr>cleanupScopes := cleanupScopes s @ [CleanupScope beginB endB]\<rparr>"

text \<open>
  \<open>currentUnresolvedGotos()\<close> returns a reference to the list of the innermost
  scope, or to the top-level list when no scope is active; the model has one
  function to read through the reference and one to write through it.
\<close>

definition currentUnresolvedGotos :: "ScopeStack \<Rightarrow> GotoJump list" where
  "currentUnresolvedGotos s =
     (if cleanupScopes s = [] then topLevelUnresolvedGotos s
      else unresolvedGotos (last (cleanupScopes s)))"

definition setCurrentUnresolvedGotos :: "GotoJump list \<Rightarrow> ScopeStack \<Rightarrow> ScopeStack" where
  "setCurrentUnresolvedGotos gs s =
     (if cleanupScopes s = [] then s\<lparr>topLevelUnresolvedGotos := gs\<rparr>
      else s\<lparr>cleanupScopes :=
             butlast (cleanupScopes s) @ [(last (cleanupScopes s))\<lparr>unresolvedGotos := gs\<rparr>]\<rparr>)"

text \<open>
  The loop of \<open>runCleanups\<close>, lines 139 to 143:
  \<open>for (i = currentCleanupScope(); i-- > targetScope;)\<close>.  The first argument
  is the value of \<open>i\<close> before the test; the body runs with \<open>i - 1\<close>.  The loop
  starts at the number of scopes, so every index it reads is in range.
\<close>

fun runCleanupsLoop :: "nat \<Rightarrow> nat \<Rightarrow> block \<Rightarrow> ScopeStack \<Rightarrow> error + ScopeStack" where
  "runCleanupsLoop 0 targetScope continueWith s = Inr s"
| "runCleanupsLoop (Suc i) targetScope continueWith s =
     (if Suc i > targetScope
      then
        (let nextBlock = (if i > targetScope then beginBlock (cleanupScopes s ! (i - 1))
                          else continueWith)
         in case executeCleanup (irs s) (cleanupScopes s ! i) (scopebb (irs s)) nextBlock of
              Inl e \<Rightarrow> Inl e
            | Inr (ir', scope') \<Rightarrow>
                runCleanupsLoop i targetScope continueWith
                  (s\<lparr>irs := ir', cleanupScopes := (cleanupScopes s)[i := scope']\<rparr>))
      else Inr s)"

definition runCleanups :: "nat \<Rightarrow> block \<Rightarrow> ScopeStack \<Rightarrow> error + ScopeStack" where
  "runCleanups targetScope continueWith s =
     (if \<not> targetScope \<le> currentCleanupScope s then Inl AssertionFailed
      else if targetScope = currentCleanupScope s
      then Inr (s\<lparr>irs := appendInst (scopebb (irs s)) (Br continueWith) (irs s)\<rparr>)
      else
        (let s1 = s\<lparr>irs := appendInst (scopebb (irs s))
                              (Br (beginBlock (last (cleanupScopes s)))) (irs s)\<rparr>
         in runCleanupsLoop (currentCleanupScope s1) targetScope continueWith s1))"

definition runAllCleanups :: "block \<Rightarrow> ScopeStack \<Rightarrow> error + ScopeStack" where
  "runAllCleanups continueWith s = runCleanups 0 continueWith s"

text \<open>
  The inner loop of \<open>popCleanups\<close>, lines 154 to 165, over the unresolved gotos
  of the scope being popped (the list is not changed while it is traversed).
\<close>

fun popCleanupsGotos :: "GotoJump list \<Rightarrow> nat \<Rightarrow> ScopeStack \<Rightarrow> error + ScopeStack" where
  "popCleanupsGotos [] i s = Inr s"
| "popCleanupsGotos (g # gs) i s =
     (let tentative = tentativeTarget g;
          ir1 = replaceAllUsesWith tentative (beginBlock (cleanupScopes s ! i)) (irs s)
      in case executeCleanup ir1 (cleanupScopes s ! i) (sourceBlock g) tentative of
           Inl e \<Rightarrow> Inl e
         | Inr (ir2, scope') \<Rightarrow>
             popCleanupsGotos gs i
               (s\<lparr>irs := ir2, cleanupScopes := (cleanupScopes s)[i := scope']\<rparr>))"

text \<open>Lines 168 to 174: the gotos of the innermost scope are appended to the next list.\<close>

definition mergeUnresolved :: "nat \<Rightarrow> ScopeStack \<Rightarrow> ScopeStack" where
  "mergeUnresolved i s =
     (if i = 0
      then s\<lparr>topLevelUnresolvedGotos := topLevelUnresolvedGotos s @ currentUnresolvedGotos s\<rparr>
      else s\<lparr>cleanupScopes := (cleanupScopes s)
             [i - 1 := (cleanupScopes s ! (i - 1))
                \<lparr>unresolvedGotos :=
                   unresolvedGotos (cleanupScopes s ! (i - 1)) @ currentUnresolvedGotos s\<rparr>]\<rparr>)"

fun popCleanupsLoop :: "nat \<Rightarrow> nat \<Rightarrow> ScopeStack \<Rightarrow> error + ScopeStack" where
  "popCleanupsLoop 0 targetScope s = Inr s"
| "popCleanupsLoop (Suc i) targetScope s =
     (if Suc i > targetScope
      then
        (case popCleanupsGotos (currentUnresolvedGotos s) i s of
           Inl e \<Rightarrow> Inl e
         | Inr s1 \<Rightarrow>
             (let s2 = mergeUnresolved i s1
              in popCleanupsLoop i targetScope
                   (s2\<lparr>cleanupScopes := butlast (cleanupScopes s2)\<rparr>)))
      else Inr s)"

definition popCleanups :: "nat \<Rightarrow> ScopeStack \<Rightarrow> error + ScopeStack" where
  "popCleanups targetScope s =
     (if targetScope = currentCleanupScope s then Inr s
      else popCleanupsLoop (currentCleanupScope s) targetScope s)"

subsection \<open>Loop, switch and label targets\<close>

text \<open>A statement is identified by its address; the null pointer is 0.\<close>

definition pushLoopTarget :: "stmt \<Rightarrow> block \<Rightarrow> block \<Rightarrow> ScopeStack \<Rightarrow> ScopeStack" where
  "pushLoopTarget loopStatement continueTarget breakTarget s =
     s\<lparr>continueTargets := continueTargets s @
          [\<lparr>targetBlock = continueTarget, cleanupScope = currentCleanupScope s,
            targetStatement = loopStatement\<rparr>],
       breakTargets := breakTargets s @
          [\<lparr>targetBlock = breakTarget, cleanupScope = currentCleanupScope s,
            targetStatement = loopStatement\<rparr>]\<rparr>"

text \<open>\<open>pop_back\<close> on an empty vector is undefined; the model returns an error there.\<close>

definition popLoopTarget :: "ScopeStack \<Rightarrow> error + ScopeStack" where
  "popLoopTarget s =
     (if continueTargets s = [] then Inl EmptyVector
      else if breakTargets s = [] then Inl EmptyVector
      else Inr (s\<lparr>continueTargets := butlast (continueTargets s),
                  breakTargets := butlast (breakTargets s)\<rparr>))"

definition pushBreakTarget :: "stmt \<Rightarrow> block \<Rightarrow> ScopeStack \<Rightarrow> ScopeStack" where
  "pushBreakTarget switchStatement targetB s =
     s\<lparr>breakTargets := breakTargets s @
          [\<lparr>targetBlock = targetB, cleanupScope = currentCleanupScope s,
            targetStatement = switchStatement\<rparr>]\<rparr>"

definition popBreakTarget :: "ScopeStack \<Rightarrow> error + ScopeStack" where
  "popBreakTarget s =
     (if breakTargets s = [] then Inl EmptyVector
      else Inr (s\<lparr>breakTargets := butlast (breakTargets s)\<rparr>))"

text \<open>
  The loop of \<open>addLabelTarget\<close>, lines 208 to 218: an entry awaiting another
  label is kept and the index advances; an entry awaiting this label has the
  uses of its placeholder redirected, its placeholder erased, and is erased
  from the list.
\<close>

fun resolveGotos :: "ident \<Rightarrow> block \<Rightarrow> GotoJump list \<Rightarrow> IRState \<Rightarrow> GotoJump list \<times> IRState" where
  "resolveGotos labelName targetB [] ir = ([], ir)"
| "resolveGotos labelName targetB (g # gs) ir =
     (if targetLabel g \<noteq> labelName
      then (let (gs', ir') = resolveGotos labelName targetB gs ir in (g # gs', ir'))
      else resolveGotos labelName targetB gs
             (eraseBlock (tentativeTarget g)
                (replaceAllUsesWith (tentativeTarget g) targetB ir)))"

definition addLabelTarget :: "ident \<Rightarrow> block \<Rightarrow> ScopeStack \<Rightarrow> ScopeStack" where
  "addLabelTarget labelName targetB s =
     (let s1 = s\<lparr>labelTargets := (labelTargets s)
                  (labelName \<mapsto> \<lparr>targetBlock = targetB, cleanupScope = currentCleanupScope s,
                                targetStatement = 0\<rparr>)\<rparr>;
          (gs, ir') = resolveGotos labelName targetB (currentUnresolvedGotos s1) (irs s1)
      in setCurrentUnresolvedGotos gs (s1\<lparr>irs := ir'\<rparr>))"

definition jumpToLabel :: "loc \<Rightarrow> ident \<Rightarrow> ScopeStack \<Rightarrow> error + ScopeStack" where
  "jumpToLabel l labelName s =
     (case labelTargets s labelName of
        Some t \<Rightarrow> runCleanups (cleanupScope t) (targetBlock t) s
      | None \<Rightarrow>
          (let (target, ir1) = createBlock (irs s);
               ir2 = appendInst (scopebb ir1) (Br target) ir1
           in Inr (setCurrentUnresolvedGotos
                     (currentUnresolvedGotos s @
                        [\<lparr>sourceLoc = l, sourceBlock = scopebb ir2, tentativeTarget = target,
                          targetLabel = labelName\<rparr>])
                     (s\<lparr>irs := ir2\<rparr>))))"

text \<open>
  \<open>jumpToStatement\<close> walks the given vector with reverse iterators; the loop
  takes the vector reversed.  Falling out of the loop reaches
  \<open>assert(false)\<close>.
\<close>

fun jumpToStatementLoop :: "JumpTarget list \<Rightarrow> stmt \<Rightarrow> ScopeStack \<Rightarrow> error + ScopeStack" where
  "jumpToStatementLoop [] loopOrSwitchStatement s = Inl AssertionFailed"
| "jumpToStatementLoop (t # ts) loopOrSwitchStatement s =
     (if targetStatement t = loopOrSwitchStatement
      then runCleanups (cleanupScope t) (targetBlock t) s
      else jumpToStatementLoop ts loopOrSwitchStatement s)"

definition jumpToStatement :: "JumpTarget list \<Rightarrow> stmt \<Rightarrow> ScopeStack \<Rightarrow> error + ScopeStack" where
  "jumpToStatement targets loopOrSwitchStatement s =
     jumpToStatementLoop (rev targets) loopOrSwitchStatement s"

definition jumpToClosest :: "JumpTarget list \<Rightarrow> ScopeStack \<Rightarrow> error + ScopeStack" where
  "jumpToClosest targets s =
     (if targets = [] then Inl AssertionFailed
      else runCleanups (cleanupScope (last targets)) (targetBlock (last targets)) s)"

subsection \<open>The end-of-function check\<close>

text \<open>
  Modelled from the spec: the diagnostics collaborator reports a location-tagged
  error message (\<open>error\<close>) and triggers the fatal abort (\<open>fatal\<close>), which does
  not return.  The calls made are kept in a log, oldest first.
\<close>

datatype diag = DiagError loc string | DiagFatal

fun reportGotos :: "GotoJump list \<Rightarrow> diag list \<Rightarrow> diag list" where
  "reportGotos [] log = log"
| "reportGotos (g # gs) log =
     reportGotos gs (log @ [DiagError (sourceLoc g) ''goto into try/finally scope is not allowed''])"

definition destroyScopeStack :: "ScopeStack \<Rightarrow> diag list \<Rightarrow> diag list" where
  "destroyScopeStack s log =
     (if topLevelUnresolvedGotos s \<noteq> []
      then reportGotos (topLevelUnresolvedGotos s) log @ [DiagFatal]
      else log)"

subsection \<open>Construction and example states\<close>

text \<open>
  Modelled from the spec: the constructor of the scope stack is declared in the
  header; a scope stack is constructed for the code generation of one function
  with every list and the label table empty.  \<open>emptyIR\<close> is a function without
  blocks; the examples below start from it.
\<close>

definition emptyIR :: IRState where
  "emptyIR = \<lparr>code = (\<lambda>b. []), funcBlocks = [], nextFresh = 0, allocas = [], scopebb = 0\<rparr>"

definition newScopeStack :: "IRState \<Rightarrow> ScopeStack" where
  "newScopeStack ir =
     \<lparr>irs = ir, cleanupScopes = [], continueTargets = [], breakTargets = [],
      labelTargets = Map.empty, topLevelUnresolvedGotos = []\<rparr>"




subsection \<open>Sequences of operations\<close>

text \<open>
  The calls the statement code generator makes on the scope stack of one
  function.  Labeled and unlabeled break and continue call \<open>jumpToStatement\<close>
  and \<open>jumpToClosest\<close> on the break stack or the continue stack.  Between two
  calls the code generator emits code of its own: \<open>OpEmit\<close> is any change of
  the IR.
\<close>

datatype operation =
    OpPushCleanup block block
  | OpRunCleanups nat block
  | OpRunAllCleanups block
  | OpPopCleanups nat
  | OpPushLoopTarget stmt block block
  | OpPopLoopTarget
  | OpPushBreakTarget stmt block
  | OpPopBreakTarget
  | OpAddLabelTarget ident block
  | OpJumpToLabel loc ident
  | OpBreakToStatement stmt
  | OpContinueToStatement stmt
  | OpBreakToClosest
  | OpContinueToClosest
  | OpEmit "IRState \<Rightarrow> IRState"

fun applyOp :: "operation \<Rightarrow> ScopeStack \<Rightarrow> error + ScopeStack" where
  "applyOp (OpPushCleanup b e) s = Inr (pushCleanup b e s)"
| "applyOp (OpRunCleanups n b) s = runCleanups n b s"
| "applyOp (OpRunAllCleanups b) s = runAllCleanups b s"
| "applyOp (OpPopCleanups n) s = popCleanups n s"
| "applyOp (OpPushLoopTarget st c b) s = Inr (pushLoopTarget st c b s)"
| "applyOp OpPopLoopTarget s = popLoopTarget s"
| "applyOp (OpPushBreakTarget st b) s = Inr (pushBreakTarget st b s)"
| "applyOp OpPopBreakTarget s = popBreakTarget s"
| "applyOp (OpAddLabelTarget l b) s = Inr (addLabelTarget l b s)"
| "applyOp (OpJumpToLabel l labelName) s = jumpToLabel l labelName s"
| "applyOp (OpBreakToStatement st) s = jumpToStatement (breakTargets s) st s"
| "applyOp (OpContinueToStatement st) s = jumpToStatement (continueTargets s) st s"
| "applyOp OpBreakToClosest s = jumpToClosest (breakTargets s) s"
| "applyOp OpContinueToClosest s = jumpToClosest (continueTargets s) s"
| "applyOp (OpEmit f) s = Inr (s\<lparr>irs := f (irs s)\<rparr>)"

fun applyOps :: "operation list \<Rightarrow> ScopeStack \<Rightarrow> error + ScopeStack" where
  "applyOps [] s = Inr s"
| "applyOps (x # xs) s = (case applyOp x s of Inl e \<Rightarrow> Inl e | Inr s' \<Rightarrow> applyOps xs s')"

fun definesLabel :: "ident \<Rightarrow> operation \<Rightarrow> bool" where
  "definesLabel l (OpAddLabelTarget l' b) = (l' = l)"
| "definesLabel l _ = False"

subsection \<open>Redirection of several placeholders\<close>

text \<open>
  The placeholders of the gotos in a list that await a label, and an
  instruction with every block operand among a set of blocks replaced by one
  block.  Both are used to state what \<open>addLabelTarget\<close> leaves behind.
\<close>

definition placeholdersOf :: "ident \<Rightarrow> GotoJump list \<Rightarrow> block set" where
  "placeholdersOf labelName gs =
     set (map tentativeTarget (filter (\<lambda>g. targetLabel g = labelName) gs))"

fun redirectInst :: "block set \<Rightarrow> block \<Rightarrow> inst \<Rightarrow> inst" where
  "redirectInst P new (Br b) = Br (if b \<in> P then new else b)"
| "redirectInst P new (CondBr b c) =
     CondBr (if b \<in> P then new else b) (if c \<in> P then new else c)"
| "redirectInst P new (Switch p d cs) =
     Switch p (if d \<in> P then new else d) (map (\<lambda>(v, b). (v, if b \<in> P then new else b)) cs)"
| "redirectInst P new i = i"

text \<open>Two forward gotos pending at top level, awaiting the labels 4 and 6.\<close>

definition pendingGotosExample :: ScopeStack where
  "pendingGotosExample =
     (newScopeStack
        \<lparr>code = (\<lambda>b. [])(1 := [Other 0, Br 5], 2 := [CondBr 7 5]),
         funcBlocks = [1, 2, 5, 7, 9], nextFresh = 10, allocas = [], scopebb = 9\<rparr>)
     \<lparr>topLevelUnresolvedGotos :=
        [\<lparr>sourceLoc = 30, sourceBlock = 1, tentativeTarget = 5, targetLabel = 4\<rparr>,
         \<lparr>sourceLoc = 31, sourceBlock = 2, tentativeTarget = 7, targetLabel = 6\<rparr>]\<rparr>"

subsection \<open>The chain of multiplexer calls of an unwinding\<close>

text \<open>
  The description of \<open>runCleanups\<close> in words: the list of multiplexer calls, each
  a scope index with the continuation passed for it, from the innermost scope
  down to the scope with index \<open>targetScope\<close>; and the execution of such a list
  of calls, all with the current block as the source block.  These two follow
  the specification and are compared with the loop of the source below.
\<close>

definition unwindChain :: "nat \<Rightarrow> block \<Rightarrow> ScopeStack \<Rightarrow> (nat \<times> block) list" where
  "unwindChain targetScope continueWith s =
     map (\<lambda>i. (i, if i > targetScope then beginBlock (cleanupScopes s ! (i - 1))
                  else continueWith))
       (rev [targetScope ..< length (cleanupScopes s)])"

fun multiplexCalls :: "(nat \<times> block) list \<Rightarrow> ScopeStack \<Rightarrow> error + ScopeStack" where
  "multiplexCalls [] s = Inr s"
| "multiplexCalls ((i, next) # calls) s =
     (case executeCleanup (irs s) (cleanupScopes s ! i) (scopebb (irs s)) next of
        Inl e \<Rightarrow> Inl e
      | Inr (ir', scope') \<Rightarrow>
          multiplexCalls calls (s\<lparr>irs := ir', cleanupScopes := (cleanupScopes s)[i := scope']\<rparr>))"

text \<open>Two nested cleanup scopes, with entry and exit blocks 1, 2 and 3, 4; the current block is 0.\<close>

definition twoScopesExample :: ScopeStack where
  "twoScopesExample =
     pushCleanup 3 4 (pushCleanup 1 2
       (newScopeStack (emptyIR\<lparr>funcBlocks := [0, 1, 2, 3, 4, 5, 6], nextFresh := 7\<rparr>)))"

subsection \<open>Sequences of requests on one scope\<close>

text \<open>
  A sequence of multiplexer calls on one scope, each a source block with the
  destination requested for it; and the destinations in the order of their
  first occurrence, starting from those already known.
\<close>

fun requests ::
  "(block \<times> block) list \<Rightarrow> IRState \<Rightarrow> CleanupScope \<Rightarrow> error + IRState \<times> CleanupScope" where
  "requests [] ir scope = Inr (ir, scope)"
| "requests ((src, continueWith) # rs) ir scope =
     (case executeCleanup ir scope src continueWith of
        Inl e \<Rightarrow> Inl e
      | Inr (ir', scope') \<Rightarrow> requests rs ir' scope')"

fun firstOccurrences :: "block list \<Rightarrow> block list \<Rightarrow> block list" where
  "firstOccurrences known [] = known"
| "firstOccurrences known (d # ds) =
     firstOccurrences (if d \<in> set known then known else known @ [d]) ds"

text \<open>
  A scope with entry block 1 and exit block 2 whose only exit target so far is
  block 5, requested from the blocks 10 and 11; block 12 is a further block
  that ends in a branch to the scope.
\<close>

definition oneTargetIR :: IRState where
  "oneTargetIR =
     \<lparr>code = (\<lambda>b. [])(2 := [Other 7, Br 5], 10 := [Br 1], 11 := [Other 0, Br 1], 12 := [Br 1]),
      funcBlocks = [1, 2, 5, 6, 10, 11, 12], nextFresh = 13, allocas = [], scopebb = 12\<rparr>"

definition oneTargetScope :: CleanupScope where
  "oneTargetScope =
     \<lparr>beginBlock = 1, endBlock = 2,
      exitTargets = [\<lparr>branchTarget = 5, sourceBlocks = [10, 11]\<rparr>],
      branchSelector = None, unresolvedGotos = []\<rparr>"

text \<open>
  The scope of the previous example after block 6 has been requested from
  block 12: it has its selector, slot 0, and two exit targets.  Block 13 is a
  further block that ends in a branch to the scope.
\<close>

definition twoTargetsIR :: IRState where
  "twoTargetsIR =
     \<lparr>code = (\<lambda>b. [])(2 := [Other 7, Load 0, Switch 0 5 [(1, 6)]], 10 := [Store 0 0, Br 1],
               11 := [Other 0, Store 0 0, Br 1], 12 := [Store 1 0, Br 1], 13 := [Br 1]),
      funcBlocks = [1, 2, 5, 6, 8, 10, 11, 12, 13], nextFresh = 14, allocas = [1], scopebb = 13\<rparr>"

definition twoTargetsScope :: CleanupScope where
  "twoTargetsScope =
     \<lparr>beginBlock = 1, endBlock = 2,
      exitTargets = [\<lparr>branchTarget = 5, sourceBlocks = [10, 11]\<rparr>,
                     \<lparr>branchTarget = 6, sourceBlocks = [12]\<rparr>],
      branchSelector = Some 0, unresolvedGotos = []\<rparr>"

subsection \<open>The steps of closing scopes\<close>

text \<open>
  The description of \<open>popCleanups\<close> in words.  \<open>Unwind i g\<close> redirects every use
  of the placeholder of the goto \<open>g\<close> to the entry block of scope \<open>i\<close> and then
  calls the multiplexer on scope \<open>i\<close> with the source block of the goto as
  source and the placeholder as destination.  \<open>Close i\<close> appends the list of
  unresolved gotos of scope \<open>i\<close> to the list of scope \<open>i - 1\<close> (to the top-level
  list for the outermost scope) and removes scope \<open>i\<close> from the stack.  The
  gotos pending at scope \<open>i\<close> are those registered against it or against a scope
  inside it.  These follow the specification and are compared with the loops
  of the source below.
\<close>

datatype popStep = Unwind nat GotoJump | Close nat

definition closeScope :: "nat \<Rightarrow> ScopeStack \<Rightarrow> ScopeStack" where
  "closeScope i s =
     (if i = 0
      then s\<lparr>topLevelUnresolvedGotos :=
                topLevelUnresolvedGotos s @ unresolvedGotos (cleanupScopes s ! 0),
             cleanupScopes := []\<rparr>
      else s\<lparr>cleanupScopes :=
                take (i - 1) (cleanupScopes s) @
                  [(cleanupScopes s ! (i - 1))
                     \<lparr>unresolvedGotos :=
                        unresolvedGotos (cleanupScopes s ! (i - 1)) @
                          unresolvedGotos (cleanupScopes s ! i)\<rparr>]\<rparr>)"

fun runPopStep :: "popStep \<Rightarrow> ScopeStack \<Rightarrow> error + ScopeStack" where
  "runPopStep (Unwind i g) s =
     (case executeCleanup
             (replaceAllUsesWith (tentativeTarget g) (beginBlock (cleanupScopes s ! i)) (irs s))
             (cleanupScopes s ! i) (sourceBlock g) (tentativeTarget g) of
        Inl e \<Rightarrow> Inl e
      | Inr (ir', scope') \<Rightarrow>
          Inr (s\<lparr>irs := ir', cleanupScopes := (cleanupScopes s)[i := scope']\<rparr>))"
| "runPopStep (Close i) s = Inr (closeScope i s)"

fun runPopSteps :: "popStep list \<Rightarrow> ScopeStack \<Rightarrow> error + ScopeStack" where
  "runPopSteps [] s = Inr s"
| "runPopSteps (x # xs) s =
     (case runPopStep x s of Inl e \<Rightarrow> Inl e | Inr s' \<Rightarrow> runPopSteps xs s')"

definition pendingAt :: "nat \<Rightarrow> ScopeStack \<Rightarrow> GotoJump list" where
  "pendingAt i s = concat (map unresolvedGotos (drop i (cleanupScopes s)))"

definition popSteps :: "nat \<Rightarrow> ScopeStack \<Rightarrow> popStep list" where
  "popSteps targetScope s =
     concat (map (\<lambda>i. map (Unwind i) (pendingAt i s) @ [Close i])
               (rev [targetScope ..< length (cleanupScopes s)]))"

fun unwindScopesOf :: "GotoJump \<Rightarrow> popStep list \<Rightarrow> nat list" where
  "unwindScopesOf g [] = []"
| "unwindScopesOf g (Unwind i g' # steps) =
     (if g' = g then i # unwindScopesOf g steps else unwindScopesOf g steps)"
| "unwindScopesOf g (Close i # steps) = unwindScopesOf g steps"

text \<open>
  Two nested cleanup scopes as before, after a goto to the undefined label 9
  from block 0 inside the inner scope: block 7 is its placeholder.
\<close>

definition gotoInTwoScopes :: ScopeStack where
  "gotoInTwoScopes =
     \<lparr>irs = \<lparr>code = (\<lambda>b. [])(0 := [Br 7]), funcBlocks = [0, 1, 2, 3, 4, 5, 6, 7],
             nextFresh = 8, allocas = [], scopebb = 0\<rparr>,
      cleanupScopes =
        [CleanupScope 1 2,
         (CleanupScope 3 4)\<lparr>unresolvedGotos :=
            [\<lparr>sourceLoc = 40, sourceBlock = 0, tentativeTarget = 7, targetLabel = 9\<rparr>]\<rparr>],
      continueTargets = [], breakTargets = [], labelTargets = Map.empty,
      topLevelUnresolvedGotos = []\<rparr>"

text \<open>
  An operation keeps the cleanup scopes when it neither pushes a scope nor pops
  one: \<open>pushCleanup\<close> never does, and \<open>popCleanups\<close> does only when its target
  cursor is not below the number of active scopes, where it pops nothing.  A
  run keeps the scopes when each of its operations does, in the state it is
  applied to.
\<close>

fun keepsScopes :: "operation \<Rightarrow> ScopeStack \<Rightarrow> bool" where
  "keepsScopes (OpPushCleanup b e) s = False"
| "keepsScopes (OpPopCleanups n) s = (currentCleanupScope s \<le> n)"
| "keepsScopes _ s = True"

fun runKeepsScopes :: "operation list \<Rightarrow> ScopeStack \<Rightarrow> bool" where
  "runKeepsScopes [] s = True"
| "runKeepsScopes (x # xs) s =
     (keepsScopes x s \<and>
      (case applyOp x s of Inl e \<Rightarrow> True | Inr s' \<Rightarrow> runKeepsScopes xs s'))"

section \<open>Properties\<close>

text \<open>Definitions unfolded when an operation is evaluated on a concrete state.\<close>

lemmas ir_defs = appendInst_def insertBeforeTerminator_def getTerminator_def createAlloca_def
  replaceAllUsesWith_def createBlock_def eraseBlock_def
lemmas mux_defs = executeCleanup_def createSelector_def addCase_def pushSource_def
  CleanupExitTarget_def CleanupScope_def
lemmas stack_defs = currentCleanupScope_def pushCleanup_def currentUnresolvedGotos_def
  setCurrentUnresolvedGotos_def runCleanups_def runAllCleanups_def popCleanups_def
  mergeUnresolved_def pushLoopTarget_def popLoopTarget_def pushBreakTarget_def
  popBreakTarget_def addLabelTarget_def jumpToLabel_def jumpToStatement_def jumpToClosest_def
  newScopeStack_def emptyIR_def

subsection \<open>The end-of-function check\<close>

lemma reportGotos_append:
  "reportGotos gs log =
     log @ map (\<lambda>g. DiagError (sourceLoc g) ''goto into try/finally scope is not allowed'') gs"
  by (induction gs arbitrary: log) simp_all

text \<open>
  C7.  When the top-level list of unresolved gotos is not empty at the end of
  the function, the destructor reports one error per remaining goto, tagged
  with the location of that goto and in list order, and then calls the fatal
  abort once; when the list is empty it makes no call to the diagnostics at
  all: the log is unchanged.
\<close>

theorem destroyScopeStack_diagnostics:
  "destroyScopeStack s log =
     log @ (if topLevelUnresolvedGotos s = [] then []
            else map (\<lambda>g. DiagError (sourceLoc g) ''goto into try/finally scope is not allowed'')
                   (topLevelUnresolvedGotos s) @ [DiagFatal])"
  by (simp add: destroyScopeStack_def reportGotos_append)

theorem destroyScopeStack_diagnostics_witness:
  "destroyScopeStack (newScopeStack emptyIR) [] = [] \<and>
   destroyScopeStack
     ((newScopeStack emptyIR)\<lparr>topLevelUnresolvedGotos :=
        [\<lparr>sourceLoc = 7, sourceBlock = 1, tentativeTarget = 2, targetLabel = 3\<rparr>,
         \<lparr>sourceLoc = 9, sourceBlock = 4, tentativeTarget = 5, targetLabel = 3\<rparr>]\<rparr>) [] =
     [DiagError 7 ''goto into try/finally scope is not allowed'',
      DiagError 9 ''goto into try/finally scope is not allowed'', DiagFatal]"
  using destroyScopeStack_diagnostics [of "newScopeStack emptyIR" "[]"]
    destroyScopeStack_diagnostics [of "(newScopeStack emptyIR)\<lparr>topLevelUnresolvedGotos :=
        [\<lparr>sourceLoc = 7, sourceBlock = 1, tentativeTarget = 2, targetLabel = 3\<rparr>,
         \<lparr>sourceLoc = 9, sourceBlock = 4, tentativeTarget = 5, targetLabel = 3\<rparr>]\<rparr>" "[]"]
  by (simp add: newScopeStack_def)

subsection \<open>Jumps to loops and switches\<close>

lemma jumpToStatementLoop_none:
  "\<forall>u \<in> set ts. targetStatement u \<noteq> st \<Longrightarrow> jumpToStatementLoop ts st s = Inl AssertionFailed"
  by (induction ts) simp_all

lemma jumpToStatementLoop_skip:
  "\<forall>u \<in> set ts. targetStatement u \<noteq> st \<Longrightarrow>
   jumpToStatementLoop (ts @ us) st s = jumpToStatementLoop us st s"
  by (induction ts) simp_all

text \<open>
  C9.  \<open>jumpToStatement\<close> takes the innermost entry of the given stack whose
  statement is the requested one (no entry pushed after it matches) and runs
  the cleanups to the cursor and block of that entry; when no entry matches it
  fails with the assertion error.  \<open>jumpToClosest\<close> runs the cleanups to the
  topmost entry whatever its statement, and fails with the assertion error on
  the empty stack.  Neither function has access to the diagnostics log.
\<close>

theorem jumpToStatement_jumpToClosest:
  "(targetStatement t = st \<and> (\<forall>u \<in> set inner. targetStatement u \<noteq> st) \<longrightarrow>
      jumpToStatement (outer @ [t] @ inner) st s =
        runCleanups (cleanupScope t) (targetBlock t) s) \<and>
   ((\<forall>u \<in> set targets. targetStatement u \<noteq> st) \<longrightarrow>
      jumpToStatement targets st s = Inl AssertionFailed) \<and>
   jumpToClosest (outer @ [t]) s = runCleanups (cleanupScope t) (targetBlock t) s \<and>
   jumpToClosest [] s = Inl AssertionFailed"
proof (intro conjI impI)
  assume h: "targetStatement t = st \<and> (\<forall>u \<in> set inner. targetStatement u \<noteq> st)"
  have "rev (outer @ [t] @ inner) = rev inner @ (t # rev outer)" by simp
  moreover have "\<forall>u \<in> set (rev inner). targetStatement u \<noteq> st" using h by simp
  ultimately have "jumpToStatementLoop (rev (outer @ [t] @ inner)) st s =
      jumpToStatementLoop (t # rev outer) st s"
    using jumpToStatementLoop_skip by metis
  then show "jumpToStatement (outer @ [t] @ inner) st s =
      runCleanups (cleanupScope t) (targetBlock t) s"
    using h by (simp add: jumpToStatement_def)
next
  assume "\<forall>u \<in> set targets. targetStatement u \<noteq> st"
  then show "jumpToStatement targets st s = Inl AssertionFailed"
    by (simp add: jumpToStatement_def jumpToStatementLoop_none)
qed (simp_all add: jumpToClosest_def)

theorem jumpToStatement_jumpToClosest_witness:
  "jumpToStatement
     [\<lparr>targetBlock = 10, cleanupScope = 0, targetStatement = 5\<rparr>,
      \<lparr>targetBlock = 11, cleanupScope = 0, targetStatement = 6\<rparr>,
      \<lparr>targetBlock = 12, cleanupScope = 0, targetStatement = 5\<rparr>,
      \<lparr>targetBlock = 13, cleanupScope = 0, targetStatement = 7\<rparr>] 5 (newScopeStack emptyIR) =
     runCleanups 0 12 (newScopeStack emptyIR) \<and>
   jumpToStatement
     [\<lparr>targetBlock = 10, cleanupScope = 0, targetStatement = 5\<rparr>,
      \<lparr>targetBlock = 11, cleanupScope = 0, targetStatement = 6\<rparr>] 8 (newScopeStack emptyIR) =
     Inl AssertionFailed \<and>
   jumpToClosest
     [\<lparr>targetBlock = 10, cleanupScope = 0, targetStatement = 5\<rparr>,
      \<lparr>targetBlock = 11, cleanupScope = 0, targetStatement = 6\<rparr>] (newScopeStack emptyIR) =
     runCleanups 0 11 (newScopeStack emptyIR) \<and>
   jumpToClosest [] (newScopeStack emptyIR) = Inl AssertionFailed"
  using jumpToStatement_jumpToClosest
    [of "\<lparr>targetBlock = 12, cleanupScope = 0, targetStatement = 5\<rparr>" 5
        "[\<lparr>targetBlock = 13, cleanupScope = 0, targetStatement = 7\<rparr>]"
        "[\<lparr>targetBlock = 10, cleanupScope = 0, targetStatement = 5\<rparr>,
          \<lparr>targetBlock = 11, cleanupScope = 0, targetStatement = 6\<rparr>]"
        "newScopeStack emptyIR"
        "[\<lparr>targetBlock = 10, cleanupScope = 0, targetStatement = 5\<rparr>,
          \<lparr>targetBlock = 11, cleanupScope = 0, targetStatement = 6\<rparr>]"]
    jumpToStatement_jumpToClosest
    [of "\<lparr>targetBlock = 11, cleanupScope = 0, targetStatement = 6\<rparr>" 8 "[]"
        "[\<lparr>targetBlock = 10, cleanupScope = 0, targetStatement = 5\<rparr>]"
        "newScopeStack emptyIR"
        "[\<lparr>targetBlock = 10, cleanupScope = 0, targetStatement = 5\<rparr>,
          \<lparr>targetBlock = 11, cleanupScope = 0, targetStatement = 6\<rparr>]"]
  by simp

subsection \<open>Break targets of loops and switches\<close>






subsection \<open>Jumps to labels\<close>

text \<open>
  C6.  When the label is in the label table, \<open>jumpToLabel\<close> is exactly
  \<open>runCleanups\<close> to the recorded cursor and block.  Otherwise it succeeds: a
  new block is created and appended to the function, the current block gets an
  unconditional branch to it, and the goto (location, current block,
  placeholder, label) is appended to the list of the innermost scope, or to the
  top-level list when no scope is active; nothing else changes.  The current
  block is taken to be a block allocated before the placeholder.
\<close>

theorem jumpToLabel_two_ways:
  "(labelTargets s labelName = Some t \<longrightarrow>
      jumpToLabel l labelName s = runCleanups (cleanupScope t) (targetBlock t) s) \<and>
   (labelTargets s labelName = None \<and> scopebb (irs s) \<noteq> nextFresh (irs s) \<longrightarrow>
      (\<exists>s'. jumpToLabel l labelName s = Inr s' \<and>
         code (irs s') (scopebb (irs s)) =
           code (irs s) (scopebb (irs s)) @ [Br (nextFresh (irs s))] \<and>
         code (irs s') (nextFresh (irs s)) = [] \<and>
         (\<forall>b. b \<noteq> scopebb (irs s) \<and> b \<noteq> nextFresh (irs s) \<longrightarrow>
              code (irs s') b = code (irs s) b) \<and>
         funcBlocks (irs s') = funcBlocks (irs s) @ [nextFresh (irs s)] \<and>
         nextFresh (irs s') = Suc (nextFresh (irs s)) \<and>
         allocas (irs s') = allocas (irs s) \<and>
         scopebb (irs s') = scopebb (irs s) \<and>
         currentUnresolvedGotos s' = currentUnresolvedGotos s @
           [\<lparr>sourceLoc = l, sourceBlock = scopebb (irs s),
             tentativeTarget = nextFresh (irs s), targetLabel = labelName\<rparr>] \<and>
         (cleanupScopes s = [] \<longrightarrow> cleanupScopes s' = []) \<and>
         (cleanupScopes s \<noteq> [] \<longrightarrow>
            topLevelUnresolvedGotos s' = topLevelUnresolvedGotos s \<and>
            cleanupScopes s' = butlast (cleanupScopes s) @
              [(last (cleanupScopes s))\<lparr>unresolvedGotos :=
                 unresolvedGotos (last (cleanupScopes s)) @
                   [\<lparr>sourceLoc = l, sourceBlock = scopebb (irs s),
                     tentativeTarget = nextFresh (irs s), targetLabel = labelName\<rparr>]\<rparr>]) \<and>
         labelTargets s' = labelTargets s \<and>
         continueTargets s' = continueTargets s \<and>
         breakTargets s' = breakTargets s))"
  by (auto simp: jumpToLabel_def createBlock_def appendInst_def setCurrentUnresolvedGotos_def
        currentUnresolvedGotos_def)

theorem jumpToLabel_two_ways_witness:
  "jumpToLabel 3 4
     ((newScopeStack (emptyIR\<lparr>funcBlocks := [0], nextFresh := 1\<rparr>))
        \<lparr>labelTargets := [4 \<mapsto> \<lparr>targetBlock = 0, cleanupScope = 0, targetStatement = 0\<rparr>]\<rparr>) =
   runCleanups 0 0
     ((newScopeStack (emptyIR\<lparr>funcBlocks := [0], nextFresh := 1\<rparr>))
        \<lparr>labelTargets := [4 \<mapsto> \<lparr>targetBlock = 0, cleanupScope = 0, targetStatement = 0\<rparr>]\<rparr>) \<and>
   (\<exists>s'. jumpToLabel 3 4 (pushCleanup 0 0 (newScopeStack (emptyIR\<lparr>funcBlocks := [0], nextFresh := 1\<rparr>))) = Inr s' \<and>
      code (irs s') 0 = [Br 1] \<and> funcBlocks (irs s') = [0, 1] \<and>
      topLevelUnresolvedGotos s' = [] \<and>
      map unresolvedGotos (cleanupScopes s') =
        [[\<lparr>sourceLoc = 3, sourceBlock = 0, tentativeTarget = 1, targetLabel = 4\<rparr>]])"
  using jumpToLabel_two_ways
      [of "(newScopeStack (emptyIR\<lparr>funcBlocks := [0], nextFresh := 1\<rparr>))
        \<lparr>labelTargets := [4 \<mapsto> \<lparr>targetBlock = 0, cleanupScope = 0, targetStatement = 0\<rparr>]\<rparr>"
        4 "\<lparr>targetBlock = 0, cleanupScope = 0, targetStatement = 0\<rparr>" 3]
    jumpToLabel_two_ways
      [of "pushCleanup 0 0 (newScopeStack (emptyIR\<lparr>funcBlocks := [0], nextFresh := 1\<rparr>))" 4 _ 3]
  by (auto simp: newScopeStack_def emptyIR_def pushCleanup_def CleanupScope_def)

subsection \<open>The label table\<close>

lemma runCleanupsLoop_labels:
  "runCleanupsLoop i n b s = Inr s' \<Longrightarrow> labelTargets s' = labelTargets s"
  by (induction i arbitrary: s) (auto split: if_splits sum.splits simp: Let_def)

lemma runCleanups_labels:
  "runCleanups n b s = Inr s' \<Longrightarrow> labelTargets s' = labelTargets s"
  by (auto simp: runCleanups_def Let_def split: if_splits dest!: runCleanupsLoop_labels)

lemma popCleanupsGotos_labels:
  "popCleanupsGotos gs i s = Inr s' \<Longrightarrow> labelTargets s' = labelTargets s"
  by (induction gs arbitrary: s) (auto split: sum.splits simp: Let_def)

lemma popCleanupsLoop_labels:
  "popCleanupsLoop i n s = Inr s' \<Longrightarrow> labelTargets s' = labelTargets s"
proof (induction i arbitrary: s)
  case 0
  then show ?case by simp
next
  case (Suc i)
  show ?case
  proof (cases "Suc i > n")
    case True
    with Suc.prems obtain s1 where
      g: "popCleanupsGotos (currentUnresolvedGotos s) i s = Inr s1" and
      r: "popCleanupsLoop i n
            ((mergeUnresolved i s1)\<lparr>cleanupScopes := butlast (cleanupScopes (mergeUnresolved i s1))\<rparr>) = Inr s'"
      by (auto split: sum.splits simp: Let_def)
    have "labelTargets s' = labelTargets (mergeUnresolved i s1)"
      using Suc.IH [OF r] by simp
    also have "\<dots> = labelTargets s1" by (simp add: mergeUnresolved_def)
    also have "\<dots> = labelTargets s" using g by (rule popCleanupsGotos_labels)
    finally show ?thesis .
  next
    case False
    with Suc.prems show ?thesis by simp
  qed
qed

lemma popCleanups_labels:
  "popCleanups n s = Inr s' \<Longrightarrow> labelTargets s' = labelTargets s"
  by (auto simp: popCleanups_def split: if_splits dest: popCleanupsLoop_labels)

lemma jumpToStatementLoop_labels:
  "jumpToStatementLoop ts st s = Inr s' \<Longrightarrow> labelTargets s' = labelTargets s"
  by (induction ts) (auto split: if_splits dest: runCleanups_labels)

lemma setCurrentUnresolvedGotos_labels:
  "labelTargets (setCurrentUnresolvedGotos gs s) = labelTargets s"
  by (simp add: setCurrentUnresolvedGotos_def)

lemma jumpToLabel_labels:
  "jumpToLabel l labelName s = Inr s' \<Longrightarrow> labelTargets s' = labelTargets s"
  by (auto simp: jumpToLabel_def Let_def setCurrentUnresolvedGotos_labels
      split: option.splits prod.splits dest: runCleanups_labels)

lemma addLabelTarget_labels:
  "labelTargets (addLabelTarget l b s) =
     (labelTargets s)(l \<mapsto> \<lparr>targetBlock = b, cleanupScope = currentCleanupScope s,
                              targetStatement = 0\<rparr>)"
  by (simp add: addLabelTarget_def Let_def setCurrentUnresolvedGotos_labels split: prod.splits)

lemma applyOp_labels:
  "applyOp x s = Inr s' \<Longrightarrow> \<not> definesLabel l x \<Longrightarrow> labelTargets s' l = labelTargets s l"
proof (cases x)
  case (OpAddLabelTarget l' b)
  assume "applyOp x s = Inr s'" "\<not> definesLabel l x"
  with OpAddLabelTarget show ?thesis by (auto simp: addLabelTarget_labels)
qed (auto simp: pushCleanup_def pushLoopTarget_def pushBreakTarget_def popLoopTarget_def
       popBreakTarget_def runAllCleanups_def jumpToStatement_def jumpToClosest_def
     split: if_splits
     dest: runCleanups_labels popCleanups_labels jumpToLabel_labels jumpToStatementLoop_labels)

lemma applyOps_labels:
  "applyOps xs s = Inr s' \<Longrightarrow> \<forall>x \<in> set xs. \<not> definesLabel l x \<Longrightarrow>
   labelTargets s' l = labelTargets s l"
proof (induction xs arbitrary: s)
  case Nil
  then show ?case by simp
next
  case (Cons x xs)
  from Cons.prems(1) obtain s1 where a: "applyOp x s = Inr s1" and b: "applyOps xs s1 = Inr s'"
    by (auto split: sum.splits)
  have "labelTargets s' l = labelTargets s1 l" using Cons.IH [OF b] Cons.prems(2) by simp
  also have "\<dots> = labelTargets s l" using applyOp_labels [OF a] Cons.prems(2) by simp
  finally show ?case .
qed

text \<open>
  C8.  \<open>addLabelTarget\<close> binds the label to the block and the cleanup cursor of
  that moment.  After any sequence of operations on the scope stack that does
  not pass this label to \<open>addLabelTarget\<close> again (and runs without an
  internal failure), the label is still bound to the same block and cursor,
  and a \<open>jumpToLabel\<close> to it is \<open>runCleanups\<close> to exactly that cursor and block.
\<close>

theorem label_entries_permanent:
  "applyOps ops (addLabelTarget labelName b s) = Inr s' \<and>
   (\<forall>x \<in> set ops. \<not> definesLabel labelName x) \<longrightarrow>
     labelTargets s' labelName =
       Some \<lparr>targetBlock = b, cleanupScope = currentCleanupScope s, targetStatement = 0\<rparr> \<and>
     jumpToLabel l labelName s' = runCleanups (currentCleanupScope s) b s'"
proof
  assume h: "applyOps ops (addLabelTarget labelName b s) = Inr s' \<and>
   (\<forall>x \<in> set ops. \<not> definesLabel labelName x)"
  then have "labelTargets s' labelName = labelTargets (addLabelTarget labelName b s) labelName"
    using applyOps_labels by blast
  then have t: "labelTargets s' labelName =
       Some \<lparr>targetBlock = b, cleanupScope = currentCleanupScope s, targetStatement = 0\<rparr>"
    by (simp add: addLabelTarget_labels)
  then show "labelTargets s' labelName =
       Some \<lparr>targetBlock = b, cleanupScope = currentCleanupScope s, targetStatement = 0\<rparr> \<and>
     jumpToLabel l labelName s' = runCleanups (currentCleanupScope s) b s'"
    by (simp add: jumpToLabel_def)
qed

theorem label_entries_permanent_witness:
  "\<exists>s'. applyOps [OpPushLoopTarget 7 2 3, OpAddLabelTarget 5 6, OpPushCleanup 2 3,
                  OpJumpToLabel 9 4, OpPopCleanups 0]
           (addLabelTarget 4 1 (newScopeStack emptyIR)) = Inr s' \<and>
     labelTargets s' 4 = Some \<lparr>targetBlock = 1, cleanupScope = 0, targetStatement = 0\<rparr> \<and>
     jumpToLabel 8 4 s' = runCleanups 0 1 s'"
proof -
  have "\<exists>s'. applyOps [OpPushLoopTarget 7 2 3, OpAddLabelTarget 5 6, OpPushCleanup 2 3,
                  OpJumpToLabel 9 4, OpPopCleanups 0]
           (addLabelTarget 4 1 (newScopeStack emptyIR)) = Inr s'"
    by (simp add: ir_defs mux_defs stack_defs Let_def numeral_2_eq_2)
  then obtain s' where s': "applyOps [OpPushLoopTarget 7 2 3, OpAddLabelTarget 5 6, OpPushCleanup 2 3,
                  OpJumpToLabel 9 4, OpPopCleanups 0]
           (addLabelTarget 4 1 (newScopeStack emptyIR)) = Inr s'" ..
  have n: "\<forall>x \<in> set [OpPushLoopTarget 7 2 3, OpAddLabelTarget 5 6, OpPushCleanup 2 3,
                  OpJumpToLabel 9 4, OpPopCleanups 0]. \<not> definesLabel 4 x"
    by simp
  have c: "currentCleanupScope (newScopeStack emptyIR) = 0"
    by (simp add: currentCleanupScope_def newScopeStack_def)
  from label_entries_permanent [of "[OpPushLoopTarget 7 2 3, OpAddLabelTarget 5 6, OpPushCleanup 2 3,
                  OpJumpToLabel 9 4, OpPopCleanups 0]" 4 1 "newScopeStack emptyIR" s' 8] s' n c
  show ?thesis by auto
qed

subsection \<open>Label definition\<close>

lemma redirectInst_empty: "redirectInst {} new i = i"
  by (cases i) (simp_all add: case_prod_unfold)

lemma redirectInst_substInst:
  "new \<notin> P \<Longrightarrow> redirectInst P new (substInst old new i) = redirectInst (insert old P) new i"
  by (cases i) (auto simp: case_prod_unfold)

lemma redirectInst_uses: "new \<notin> P \<Longrightarrow> instUses (redirectInst P new i) \<inter> P = {}"
  by (cases i) (auto simp: case_prod_unfold split: if_splits)

lemma map_redirectInst_empty: "map (redirectInst {} new) is = is"
  by (induction "is") (simp_all add: redirectInst_empty)

lemma placeholdersOf_Cons:
  "placeholdersOf l (g # gs) =
     (if targetLabel g = l then insert (tentativeTarget g) (placeholdersOf l gs)
      else placeholdersOf l gs)"
  by (simp add: placeholdersOf_def)

lemma resolveGotos_fst:
  "fst (resolveGotos l b gs ir) = filter (\<lambda>g. targetLabel g \<noteq> l) gs"
  by (induction gs arbitrary: ir) (simp_all add: case_prod_unfold Let_def)

lemma resolveGotos_funcBlocks:
  "funcBlocks (snd (resolveGotos l b gs ir)) =
     filter (\<lambda>x. x \<notin> placeholdersOf l gs) (funcBlocks ir)"
proof (induction gs arbitrary: ir)
  case Nil
  then show ?case by (simp add: placeholdersOf_def)
next
  case (Cons g gs)
  show ?case
  proof (cases "targetLabel g = l")
    case True
    then show ?thesis
      by (auto simp: Cons.IH placeholdersOf_Cons eraseBlock_def replaceAllUsesWith_def
            removeAll_filter_not_eq intro: filter_cong)
  next
    case False
    then show ?thesis by (simp add: Cons.IH placeholdersOf_Cons case_prod_unfold Let_def)
  qed
qed

lemma resolveGotos_code:
  "b \<notin> placeholdersOf l gs \<Longrightarrow>
   code (snd (resolveGotos l b gs ir)) blk =
     (if blk \<in> placeholdersOf l gs then []
      else map (redirectInst (placeholdersOf l gs) b) (code ir blk))"
proof (induction gs arbitrary: ir)
  case Nil
  then show ?case by (simp add: placeholdersOf_def map_redirectInst_empty)
next
  case (Cons g gs)
  show ?case
  proof (cases "targetLabel g = l")
    case True
    with Cons.prems have nb: "b \<notin> placeholdersOf l gs" and "b \<noteq> tentativeTarget g"
      by (simp_all add: placeholdersOf_Cons)
    then show ?thesis using True
      by (simp add: Cons.IH [OF nb] placeholdersOf_Cons eraseBlock_def replaceAllUsesWith_def
            redirectInst_substInst o_def)
  next
    case False
    with Cons.prems have nb: "b \<notin> placeholdersOf l gs" by (simp add: placeholdersOf_Cons)
    show ?thesis using False
      by (simp add: Cons.IH [OF nb] placeholdersOf_Cons case_prod_unfold Let_def)
  qed
qed

lemma resolveGotos_rest:
  "nextFresh (snd (resolveGotos l b gs ir)) = nextFresh ir \<and>
   allocas (snd (resolveGotos l b gs ir)) = allocas ir \<and>
   scopebb (snd (resolveGotos l b gs ir)) = scopebb ir"
  by (induction gs arbitrary: ir)
     (simp_all add: case_prod_unfold Let_def eraseBlock_def replaceAllUsesWith_def)

lemma addLabelTarget_irs:
  "irs (addLabelTarget l b s) = snd (resolveGotos l b (currentUnresolvedGotos s) (irs s))"
  by (simp add: addLabelTarget_def Let_def setCurrentUnresolvedGotos_def currentUnresolvedGotos_def
        case_prod_unfold)

lemma addLabelTarget_current:
  "currentUnresolvedGotos (addLabelTarget l b s) =
     filter (\<lambda>g. targetLabel g \<noteq> l) (currentUnresolvedGotos s)"
  by (simp add: addLabelTarget_def Let_def setCurrentUnresolvedGotos_def currentUnresolvedGotos_def
        case_prod_unfold resolveGotos_fst)

lemma addLabelTarget_scopes:
  "cleanupScopes (addLabelTarget l b s) =
     (if cleanupScopes s = [] then []
      else butlast (cleanupScopes s) @
             [(last (cleanupScopes s))\<lparr>unresolvedGotos :=
                filter (\<lambda>g. targetLabel g \<noteq> l) (unresolvedGotos (last (cleanupScopes s)))\<rparr>])"
  by (simp add: addLabelTarget_def Let_def setCurrentUnresolvedGotos_def currentUnresolvedGotos_def
        case_prod_unfold resolveGotos_fst)

lemma addLabelTarget_top:
  "cleanupScopes s \<noteq> [] \<Longrightarrow>
   topLevelUnresolvedGotos (addLabelTarget l b s) = topLevelUnresolvedGotos s"
  by (simp add: addLabelTarget_def Let_def setCurrentUnresolvedGotos_def case_prod_unfold)

lemma addLabelTarget_targets:
  "continueTargets (addLabelTarget l b s) = continueTargets s \<and>
   breakTargets (addLabelTarget l b s) = breakTargets s"
  by (simp add: addLabelTarget_def Let_def setCurrentUnresolvedGotos_def case_prod_unfold)

lemma addLabelTarget_code:
  "b \<notin> placeholdersOf l (currentUnresolvedGotos s) \<Longrightarrow>
   code (irs (addLabelTarget l b s)) blk =
     (if blk \<in> placeholdersOf l (currentUnresolvedGotos s) then []
      else map (redirectInst (placeholdersOf l (currentUnresolvedGotos s)) b) (code (irs s) blk))"
  by (simp add: addLabelTarget_irs resolveGotos_code)

lemma addLabelTarget_no_uses:
  assumes "b \<notin> placeholdersOf l (currentUnresolvedGotos s)"
    and "i \<in> set (code (irs (addLabelTarget l b s)) blk)"
  shows "instUses i \<inter> placeholdersOf l (currentUnresolvedGotos s) = {}"
proof (cases "blk \<in> placeholdersOf l (currentUnresolvedGotos s)")
  case True
  with assms show ?thesis by (simp add: addLabelTarget_code)
next
  case False
  with assms obtain j where "i = redirectInst (placeholdersOf l (currentUnresolvedGotos s)) b j"
    by (auto simp: addLabelTarget_code)
  then show ?thesis using assms(1) by (simp add: redirectInst_uses)
qed

lemma jumpToLabel_unknown:
  assumes "labelTargets s l = None"
  shows "\<exists>s1. jumpToLabel lc l s = Inr s1 \<and>
     labelTargets s1 = labelTargets s \<and>
     currentUnresolvedGotos s1 = currentUnresolvedGotos s @
       [\<lparr>sourceLoc = lc, sourceBlock = scopebb (irs s), tentativeTarget = nextFresh (irs s),
         targetLabel = l\<rparr>] \<and>
     funcBlocks (irs s1) = funcBlocks (irs s) @ [nextFresh (irs s)] \<and>
     code (irs s1) = (code (irs s))(nextFresh (irs s) := [],
        scopebb (irs s) := ((code (irs s))(nextFresh (irs s) := [])) (scopebb (irs s)) @
           [Br (nextFresh (irs s))])"
  using assms
  by (auto simp: jumpToLabel_def createBlock_def appendInst_def setCurrentUnresolvedGotos_def
        currentUnresolvedGotos_def)

subsection \<open>Unwinding for a jump\<close>

lemma runCleanupsLoop_chain:
  "runCleanupsLoop i t cw s =
     multiplexCalls
       (map (\<lambda>j. (j, if j > t then beginBlock (cleanupScopes s ! (j - 1)) else cw))
          (rev [t ..< i])) s"
proof (induction i arbitrary: s)
  case 0
  then show ?case by simp
next
  case (Suc i)
  show ?case
  proof (cases "Suc i > t")
    case False
    then show ?thesis by simp
  next
    case True
    then have r: "rev [t ..< Suc i] = i # rev [t ..< i]" by simp
    have m: "map (\<lambda>j. (j, if j > t
                 then beginBlock (cleanupScopes
                        (s\<lparr>irs := ir, cleanupScopes := (cleanupScopes s)[i := sc]\<rparr>) ! (j - 1))
                 else cw))
               (rev [t ..< i]) =
             map (\<lambda>j. (j, if j > t then beginBlock (cleanupScopes s ! (j - 1)) else cw))
               (rev [t ..< i])" for ir sc
      by (rule map_cong) auto
    let ?nb = "if i > t then beginBlock (cleanupScopes s ! (i - 1)) else cw"
    let ?chain = "map (\<lambda>j. (j, if j > t then beginBlock (cleanupScopes s ! (j - 1)) else cw))
               (rev [t ..< i])"
    show ?thesis
    proof (cases "executeCleanup (irs s) (cleanupScopes s ! i) (scopebb (irs s)) ?nb")
      case (Inl e)
      then show ?thesis using True by (simp add: r Let_def)
    next
      case (Inr p)
      obtain ir' sc' where p: "p = (ir', sc')" by (cases p)
      let ?s' = "s\<lparr>irs := ir', cleanupScopes := (cleanupScopes s)[i := sc']\<rparr>"
      have "runCleanupsLoop (Suc i) t cw s = runCleanupsLoop i t cw ?s'"
        using True Inr p by (simp add: Let_def)
      also have "\<dots> = multiplexCalls
          (map (\<lambda>j. (j, if j > t then beginBlock (cleanupScopes ?s' ! (j - 1)) else cw))
             (rev [t ..< i])) ?s'"
        by (rule Suc.IH)
      also have "\<dots> = multiplexCalls ?chain ?s'"
        by (simp only: m)
      also have "\<dots> = multiplexCalls ((i, ?nb) # ?chain) s"
        using Inr p by simp
      finally show ?thesis by (simp only: r list.map)
    qed
  qed
qed

lemma multiplexCalls_take:
  "multiplexCalls calls s = Inr s' \<Longrightarrow> \<forall>c \<in> set calls. t \<le> fst c \<Longrightarrow>
   take t (cleanupScopes s') = take t (cleanupScopes s)"
proof (induction calls arbitrary: s)
  case Nil
  then show ?case by simp
next
  case (Cons c calls)
  obtain i nb where c: "c = (i, nb)" by (cases c)
  from Cons.prems(1) c obtain ir' sc' where
    r: "multiplexCalls calls (s\<lparr>irs := ir', cleanupScopes := (cleanupScopes s)[i := sc']\<rparr>) = Inr s'"
    by (auto split: sum.splits)
  have "t \<le> i" using Cons.prems(2) c by simp
  then show ?case using Cons.IH [OF r] Cons.prems(2) by simp
qed

text \<open>
  C3.  \<open>runCleanups\<close> fails its assertion when the target cursor exceeds the
  number of active scopes.  When the two are equal it only appends the branch
  to \<open>continueWith\<close> to the current block; no scope is changed.  Otherwise it
  appends to the current block the branch to the entry block of the innermost
  scope and then makes exactly the multiplexer calls of \<open>unwindChain\<close>, in
  that order and all with the current block as source: one call for each scope
  pushed after the target cursor was taken (list positions \<open>targetScope\<close> up
  to the innermost, innermost first), with the entry block of the next scope
  outward as continuation and \<open>continueWith\<close> for the last, outermost one.
  The \<open>targetScope\<close> scopes that were active when the cursor was taken are not
  touched.  \<open>runAllCleanups\<close> is \<open>runCleanups\<close> to the cursor 0.
\<close>

theorem runCleanups_chain:
  "(currentCleanupScope s < targetScope \<longrightarrow>
      runCleanups targetScope continueWith s = Inl AssertionFailed) \<and>
   (targetScope = currentCleanupScope s \<longrightarrow>
      runCleanups targetScope continueWith s =
        Inr (s\<lparr>irs := (irs s)\<lparr>code := (code (irs s))
               (scopebb (irs s) := code (irs s) (scopebb (irs s)) @ [Br continueWith])\<rparr>\<rparr>)) \<and>
   (targetScope < currentCleanupScope s \<longrightarrow>
      runCleanups targetScope continueWith s =
        multiplexCalls (unwindChain targetScope continueWith s)
          (s\<lparr>irs := (irs s)\<lparr>code := (code (irs s))
              (scopebb (irs s) := code (irs s) (scopebb (irs s)) @
                 [Br (beginBlock (last (cleanupScopes s)))])\<rparr>\<rparr>) \<and>
      map fst (unwindChain targetScope continueWith s) =
        rev [targetScope ..< currentCleanupScope s] \<and>
      snd (last (unwindChain targetScope continueWith s)) = continueWith \<and>
      (\<forall>i. targetScope < i \<and> i < currentCleanupScope s \<longrightarrow>
         (i, beginBlock (cleanupScopes s ! (i - 1))) \<in> set (unwindChain targetScope continueWith s)) \<and>
      (\<forall>s'. runCleanups targetScope continueWith s = Inr s' \<longrightarrow>
         take targetScope (cleanupScopes s') = take targetScope (cleanupScopes s))) \<and>
   runAllCleanups continueWith s = runCleanups 0 continueWith s"
proof (intro conjI impI allI)
  assume lt: "targetScope < currentCleanupScope s"
  show r: "runCleanups targetScope continueWith s =
        multiplexCalls (unwindChain targetScope continueWith s)
          (s\<lparr>irs := (irs s)\<lparr>code := (code (irs s))
              (scopebb (irs s) := code (irs s) (scopebb (irs s)) @
                 [Br (beginBlock (last (cleanupScopes s)))])\<rparr>\<rparr>)"
    using lt
    by (simp add: runCleanups_def Let_def runCleanupsLoop_chain unwindChain_def
          currentCleanupScope_def appendInst_def cong: if_cong)
  show "map fst (unwindChain targetScope continueWith s) =
        rev [targetScope ..< currentCleanupScope s]"
    by (simp add: unwindChain_def currentCleanupScope_def o_def rev_map [symmetric])
  have "[targetScope ..< currentCleanupScope s] =
        targetScope # [Suc targetScope ..< currentCleanupScope s]"
    using lt by (simp add: upt_conv_Cons)
  then show "snd (last (unwindChain targetScope continueWith s)) = continueWith"
    by (simp add: unwindChain_def currentCleanupScope_def)
  fix s' assume "runCleanups targetScope continueWith s = Inr s'"
  then have "multiplexCalls (unwindChain targetScope continueWith s)
          (s\<lparr>irs := (irs s)\<lparr>code := (code (irs s))
              (scopebb (irs s) := code (irs s) (scopebb (irs s)) @
                 [Br (beginBlock (last (cleanupScopes s)))])\<rparr>\<rparr>) = Inr s'"
    using r by simp
  moreover have "\<forall>c \<in> set (unwindChain targetScope continueWith s). targetScope \<le> fst c"
    by (auto simp: unwindChain_def)
  ultimately show "take targetScope (cleanupScopes s') = take targetScope (cleanupScopes s)"
    using multiplexCalls_take by fastforce
next
  fix i assume "targetScope < i \<and> i < currentCleanupScope s"
  then show "(i, beginBlock (cleanupScopes s ! (i - 1))) \<in> set (unwindChain targetScope continueWith s)"
    by (auto simp: unwindChain_def currentCleanupScope_def image_iff)
qed (simp_all add: runCleanups_def runAllCleanups_def appendInst_def)

theorem runCleanups_chain_witness:
  "runCleanups 3 5 twoScopesExample = Inl AssertionFailed \<and>
   (\<exists>s'. runCleanups 2 5 twoScopesExample = Inr s' \<and> code (irs s') 0 = [Br 5] \<and>
      cleanupScopes s' = cleanupScopes twoScopesExample) \<and>
   unwindChain 0 5 twoScopesExample = [(1, 1), (0, 5)] \<and>
   (\<exists>s'. runCleanups 0 5 twoScopesExample = Inr s' \<and>
      multiplexCalls [(1, 1), (0, 5)]
        (twoScopesExample\<lparr>irs := (irs twoScopesExample)\<lparr>code := (\<lambda>b. [])(0 := [Br 3])\<rparr>\<rparr>) = Inr s' \<and>
      code (irs s') 0 = [Br 3] \<and> code (irs s') 4 = [Br 1] \<and> code (irs s') 2 = [Br 5] \<and>
      map exitTargets (cleanupScopes s') =
        [[\<lparr>branchTarget = 5, sourceBlocks = [0]\<rparr>], [\<lparr>branchTarget = 1, sourceBlocks = [0]\<rparr>]]) \<and>
   (\<exists>s'. runCleanups 1 5 twoScopesExample = Inr s' \<and>
      take 1 (cleanupScopes s') = take 1 (cleanupScopes twoScopesExample) \<and>
      code (irs s') 4 = [Br 5])"
proof -
  have d: "currentCleanupScope twoScopesExample = 2"
    by (simp add: twoScopesExample_def stack_defs)
  have f: "code (irs twoScopesExample) = (\<lambda>b. [])" "scopebb (irs twoScopesExample) = 0"
    "beginBlock (last (cleanupScopes twoScopesExample)) = 3"
    by (simp_all add: twoScopesExample_def stack_defs mux_defs)
  have u: "unwindChain 0 5 twoScopesExample = [(1, 1), (0, 5)]"
    by (simp add: twoScopesExample_def stack_defs mux_defs unwindChain_def upt_rec numeral_2_eq_2)
  have a: "runCleanups 3 5 twoScopesExample = Inl AssertionFailed"
    using runCleanups_chain [of twoScopesExample 3 5] by (simp add: d)
  have b: "\<exists>s'. runCleanups 2 5 twoScopesExample = Inr s' \<and> code (irs s') 0 = [Br 5] \<and>
      cleanupScopes s' = cleanupScopes twoScopesExample"
    using runCleanups_chain [of twoScopesExample 2 5] by (simp add: d f)
  have e0: "\<exists>s'. runCleanups 0 5 twoScopesExample = Inr s' \<and>
      code (irs s') 0 = [Br 3] \<and> code (irs s') 4 = [Br 1] \<and> code (irs s') 2 = [Br 5] \<and>
      map exitTargets (cleanupScopes s') =
        [[\<lparr>branchTarget = 5, sourceBlocks = [0]\<rparr>], [\<lparr>branchTarget = 1, sourceBlocks = [0]\<rparr>]]"
    by (simp add: twoScopesExample_def ir_defs mux_defs stack_defs Let_def numeral_2_eq_2)
  have c: "\<exists>s'. runCleanups 0 5 twoScopesExample = Inr s' \<and>
      multiplexCalls [(1, 1), (0, 5)]
        (twoScopesExample\<lparr>irs := (irs twoScopesExample)\<lparr>code := (\<lambda>b. [])(0 := [Br 3])\<rparr>\<rparr>) = Inr s' \<and>
      code (irs s') 0 = [Br 3] \<and> code (irs s') 4 = [Br 1] \<and> code (irs s') 2 = [Br 5] \<and>
      map exitTargets (cleanupScopes s') =
        [[\<lparr>branchTarget = 5, sourceBlocks = [0]\<rparr>], [\<lparr>branchTarget = 1, sourceBlocks = [0]\<rparr>]]"
    using runCleanups_chain [of twoScopesExample 0 5] e0 by (auto simp: d f u)
  have e1: "\<exists>s'. runCleanups 1 5 twoScopesExample = Inr s' \<and> code (irs s') 4 = [Br 5]"
    by (simp add: twoScopesExample_def ir_defs mux_defs stack_defs Let_def numeral_2_eq_2)
  have g: "\<exists>s'. runCleanups 1 5 twoScopesExample = Inr s' \<and>
      take 1 (cleanupScopes s') = take 1 (cleanupScopes twoScopesExample) \<and>
      code (irs s') 4 = [Br 5]"
    using runCleanups_chain [of twoScopesExample 1 5] e1 by (auto simp: d)
  from a b u c g show ?thesis by blast
qed

subsection \<open>The cleanup multiplexer\<close>

lemma insertBeforeTerminator_code:
  "code (insertBeforeTerminator b i ir) b' =
     (if b' = b \<and> getTerminator (code ir b) \<noteq> None
      then butlast (code ir b) @ [i, last (code ir b)] else code ir b')"
  by (auto simp: insertBeforeTerminator_def getTerminator_def split: option.splits if_splits)

lemma insertBeforeTerminator_rest:
  "allocas (insertBeforeTerminator b i ir) = allocas ir \<and>
   funcBlocks (insertBeforeTerminator b i ir) = funcBlocks ir \<and>
   nextFresh (insertBeforeTerminator b i ir) = nextFresh ir \<and>
   scopebb (insertBeforeTerminator b i ir) = scopebb ir"
  by (simp add: insertBeforeTerminator_def split: option.splits)

lemma insertBeforeTerminator_eq:
  "getTerminator (code ir b) = Some t \<Longrightarrow>
   insertBeforeTerminator b i ir = ir\<lparr>code := (code ir)(b := butlast (code ir b) @ [i, t])\<rparr>"
  by (simp add: insertBeforeTerminator_def)

lemma getTerminator_Some: "getTerminator is = Some t \<longleftrightarrow> is \<noteq> [] \<and> last is = t \<and> isTerminator t"
  by (auto simp: getTerminator_def)

lemma getTerminator_snoc: "getTerminator (is @ [t]) = (if isTerminator t then Some t else None)"
  by (simp add: getTerminator_def)

lemma backfill_rest:
  "allocas (fold (\<lambda>b. insertBeforeTerminator b i) srcs ir) = allocas ir \<and>
   funcBlocks (fold (\<lambda>b. insertBeforeTerminator b i) srcs ir) = funcBlocks ir \<and>
   nextFresh (fold (\<lambda>b. insertBeforeTerminator b i) srcs ir) = nextFresh ir \<and>
   scopebb (fold (\<lambda>b. insertBeforeTerminator b i) srcs ir) = scopebb ir"
  by (induction srcs arbitrary: ir) (simp_all add: insertBeforeTerminator_rest)

lemma backfill_code:
  "code (fold (\<lambda>b. insertBeforeTerminator b i) srcs ir) b =
     (if getTerminator (code ir b) \<noteq> None
      then butlast (code ir b) @ replicate (count_list srcs b) i @ [last (code ir b)]
      else code ir b)"
proof (induction srcs arbitrary: ir)
  case Nil
  then show ?case by (auto simp: getTerminator_def)
next
  case (Cons a srcs)
  show ?case
  proof (cases "getTerminator (code ir b) = None")
    case True
    then show ?thesis
      by (auto simp: Cons.IH insertBeforeTerminator_code)
  next
    case False
    then obtain t where t: "getTerminator (code ir b) = Some t" by auto
    then have l: "code ir b \<noteq> []" "last (code ir b) = t" "isTerminator t"
      by (simp_all add: getTerminator_Some)
    show ?thesis
    proof (cases "a = b")
      case True
      have "getTerminator (butlast (code ir b) @ [i, t]) = Some t"
        using l by (simp add: getTerminator_def)
      then show ?thesis using True t l
        by (simp add: Cons.IH insertBeforeTerminator_code butlast_append replicate_app_Cons_same)
    next
      case False
      then show ?thesis using t by (simp add: Cons.IH insertBeforeTerminator_code)
    qed
  qed
qed

lemma findExitTarget_None:
  "findExitTarget ts cw k = None \<longleftrightarrow> cw \<notin> branchTarget ` set ts"
  by (induction ts arbitrary: k) auto

lemma findExitTarget_Some:
  "findExitTarget ts cw k = Some i \<Longrightarrow>
   k \<le> i \<and> i - k < length ts \<and> branchTarget (ts ! (i - k)) = cw \<and>
   (\<forall>j < i - k. branchTarget (ts ! j) \<noteq> cw)"
proof (induction ts arbitrary: k)
  case Nil
  then show ?case by simp
next
  case (Cons t ts)
  show ?case
  proof (cases "branchTarget t = cw")
    case True
    with Cons.prems show ?thesis by simp
  next
    case False
    with Cons.prems have r: "findExitTarget ts cw (Suc k) = Some i" by simp
    from Cons.IH [OF r] have a: "Suc k \<le> i" "i - Suc k < length ts"
      "branchTarget (ts ! (i - Suc k)) = cw" "\<forall>j < i - Suc k. branchTarget (ts ! j) \<noteq> cw"
      by simp_all
    then have e: "i - k = Suc (i - Suc k)" by simp
    have "\<forall>j < i - k. branchTarget ((t # ts) ! j) \<noteq> cw"
    proof (intro allI impI)
      fix j assume "j < i - k"
      then show "branchTarget ((t # ts) ! j) \<noteq> cw"
        using a(4) False e by (cases j) auto
    qed
    then show ?thesis using a e by simp
  qed
qed

lemma findExitTarget_distinct:
  "distinct (map branchTarget ts) \<Longrightarrow> i < length ts \<Longrightarrow> branchTarget (ts ! i) = cw \<Longrightarrow>
   findExitTarget ts cw k = Some (k + i)"
proof (induction ts arbitrary: k i)
  case Nil
  then show ?case by simp
next
  case (Cons t ts)
  show ?case
  proof (cases i)
    case 0
    with Cons.prems show ?thesis by simp
  next
    case (Suc j)
    with Cons.prems have "branchTarget t \<noteq> cw" by (auto simp: image_iff)
    moreover have "findExitTarget ts cw (Suc k) = Some (Suc k + j)"
      using Cons.prems Suc by (intro Cons.IH) simp_all
    ultimately show ?thesis using Suc by simp
  qed
qed

lemma executeCleanup_first:
  assumes "exitTargets scope = []" "branchSelector scope = None"
  shows "executeCleanup ir scope src cw =
     Inr (ir\<lparr>code := (code ir)(endBlock scope := code ir (endBlock scope) @ [Br cw])\<rparr>,
          scope\<lparr>exitTargets := [\<lparr>branchTarget = cw, sourceBlocks = [src]\<rparr>]\<rparr>)"
  using assms
  by (simp add: executeCleanup_def appendInst_def pushSource_def CleanupExitTarget_def)

lemma executeCleanup_same:
  assumes "exitTargets scope = [t]" "branchTarget t = cw" "branchSelector scope = None"
  shows "executeCleanup ir scope src cw =
     Inr (ir, scope\<lparr>exitTargets := [t\<lparr>sourceBlocks := sourceBlocks t @ [src]\<rparr>]\<rparr>)"
  using assms by (simp add: executeCleanup_def pushSource_def)

lemma createSelector_new:
  assumes "branchSelector scope = None"
    and "code ir (endBlock scope) = pre @ [Br d]"
    and "endBlock scope \<notin> set (sourceBlocks (hd (exitTargets scope)))"
  shows "\<exists>ir'. createSelector ir scope =
            Inr (length (allocas ir), ir', scope\<lparr>branchSelector := Some (length (allocas ir))\<rparr>) \<and>
     allocas ir' = allocas ir @ [beginBlock scope] \<and>
     funcBlocks ir' = funcBlocks ir \<and> nextFresh ir' = nextFresh ir \<and> scopebb ir' = scopebb ir \<and>
     code ir' (endBlock scope) =
       pre @ [Load (length (allocas ir)),
              Switch (length (allocas ir)) (branchTarget (exitTargets scope ! 0)) []] \<and>
     (\<forall>b. b \<noteq> endBlock scope \<longrightarrow>
        code ir' b =
          (if getTerminator (code ir b) \<noteq> None
           then butlast (code ir b) @
                  replicate (count_list (sourceBlocks (hd (exitTargets scope))) b)
                    (Store 0 (length (allocas ir))) @ [last (code ir b)]
           else code ir b))"
proof -
  let ?sel = "length (allocas ir)"
  let ?ir1 = "ir\<lparr>allocas := allocas ir @ [beginBlock scope]\<rparr>"
  let ?ir2 = "fold (\<lambda>b. insertBeforeTerminator b (Store 0 ?sel))
                (sourceBlocks (hd (exitTargets scope))) ?ir1"
  have c0: "count_list (sourceBlocks (hd (exitTargets scope))) (endBlock scope) = 0"
    using assms(3) by (simp add: count_list_0_iff)
  have e: "code ?ir2 (endBlock scope) = pre @ [Br d]"
    using assms(2) c0 by (simp add: backfill_code getTerminator_def)
  have o: "code ?ir2 b =
          (if getTerminator (code ir b) \<noteq> None
           then butlast (code ir b) @
                  replicate (count_list (sourceBlocks (hd (exitTargets scope))) b)
                    (Store 0 ?sel) @ [last (code ir b)]
           else code ir b)" for b
    by (simp add: backfill_code)
  have r: "allocas ?ir2 = allocas ir @ [beginBlock scope]" "funcBlocks ?ir2 = funcBlocks ir"
    "nextFresh ?ir2 = nextFresh ir" "scopebb ?ir2 = scopebb ir"
    by (simp_all add: backfill_rest)
  have t: "getTerminator (code ?ir2 (endBlock scope)) = Some (Br d)"
    by (simp add: e getTerminator_def)
  show ?thesis
    using assms(1) t e o r
    by (simp add: createSelector_def createAlloca_def Let_def appendInst_def)
qed

lemma getTerminator_insert:
  "getTerminator is \<noteq> None \<Longrightarrow>
   getTerminator (butlast is @ xs @ [last is]) = Some (last is)"
  by (auto simp: getTerminator_def split: if_splits)

lemma executeCleanup_second:
  assumes ts: "exitTargets scope = [t]" and ne: "branchTarget t \<noteq> cw"
    and ns: "branchSelector scope = None"
    and eb: "code ir (endBlock scope) = pre @ [Br (branchTarget t)]"
    and es: "endBlock scope \<notin> set (sourceBlocks t)" and se: "src \<noteq> endBlock scope"
  shows "\<exists>ir'. executeCleanup ir scope src cw =
            Inr (ir', scope\<lparr>branchSelector := Some (length (allocas ir)),
                            exitTargets := [t, \<lparr>branchTarget = cw, sourceBlocks = [src]\<rparr>]\<rparr>) \<and>
     allocas ir' = allocas ir @ [beginBlock scope] \<and>
     funcBlocks ir' = funcBlocks ir \<and> nextFresh ir' = nextFresh ir \<and> scopebb ir' = scopebb ir \<and>
     code ir' (endBlock scope) =
       pre @ [Load (length (allocas ir)),
              Switch (length (allocas ir)) (branchTarget t) [(1, cw)]] \<and>
     (\<forall>b. b \<noteq> endBlock scope \<longrightarrow>
        code ir' b =
          (if getTerminator (code ir b) \<noteq> None
           then butlast (code ir b) @
                  replicate (count_list (sourceBlocks t) b) (Store 0 (length (allocas ir))) @
                  (if b = src then [Store 1 (length (allocas ir))] else []) @
                  [last (code ir b)]
           else code ir b))"
proof -
  let ?sel = "length (allocas ir)"
  let ?scope1 = "scope\<lparr>branchSelector := Some ?sel\<rparr>"
  from createSelector_new [of scope ir pre "branchTarget t"] ns eb es ts
  obtain ir1 where
    cs: "createSelector ir scope = Inr (?sel, ir1, ?scope1)" and
    r1: "allocas ir1 = allocas ir @ [beginBlock scope]" "funcBlocks ir1 = funcBlocks ir"
        "nextFresh ir1 = nextFresh ir" "scopebb ir1 = scopebb ir" and
    e1: "code ir1 (endBlock scope) = pre @ [Load ?sel, Switch ?sel (branchTarget t) []]" and
    o1: "\<forall>b. b \<noteq> endBlock scope \<longrightarrow>
        code ir1 b =
          (if getTerminator (code ir b) \<noteq> None
           then butlast (code ir b) @
                  replicate (count_list (sourceBlocks t) b) (Store 0 ?sel) @ [last (code ir b)]
           else code ir b)"
    by auto
  let ?ir2 = "ir1\<lparr>code := (code ir1)(endBlock scope :=
                 butlast (code ir1 (endBlock scope)) @ [Switch ?sel (branchTarget t) [(1, cw)]])\<rparr>"
  have ac: "addCase (endBlock ?scope1) (length (exitTargets ?scope1)) cw ir1 = Inr ?ir2"
    by (simp add: addCase_def e1 getTerminator_def ts)
  have e2: "code ?ir2 (endBlock scope) = pre @ [Load ?sel, Switch ?sel (branchTarget t) [(1, cw)]]"
    by (simp add: e1 butlast_append)
  let ?ir3 = "insertBeforeTerminator src (Store 1 ?sel) ?ir2"
  have ex: "executeCleanup ir scope src cw =
      Inr (?ir3, scope\<lparr>branchSelector := Some ?sel,
                         exitTargets := [t, \<lparr>branchTarget = cw, sourceBlocks = [src]\<rparr>]\<rparr>)"
    using ts ne ac
    by (simp add: executeCleanup_def cs Let_def pushSource_def CleanupExitTarget_def)
  have r3: "allocas ?ir3 = allocas ir @ [beginBlock scope]" "funcBlocks ?ir3 = funcBlocks ir"
        "nextFresh ?ir3 = nextFresh ir" "scopebb ?ir3 = scopebb ir"
    by (simp_all add: insertBeforeTerminator_rest r1)
  have e3: "code ?ir3 (endBlock scope) =
      pre @ [Load ?sel, Switch ?sel (branchTarget t) [(1, cw)]]"
    using se e2 by (simp add: insertBeforeTerminator_code)
  have o3: "code ?ir3 b =
          (if getTerminator (code ir b) \<noteq> None
           then butlast (code ir b) @
                  replicate (count_list (sourceBlocks t) b) (Store 0 ?sel) @
                  (if b = src then [Store 1 ?sel] else []) @ [last (code ir b)]
           else code ir b)" if b: "b \<noteq> endBlock scope" for b
  proof (cases "getTerminator (code ir b) = None")
    case True
    then have "code ir1 b = code ir b" using o1 b by simp
    then show ?thesis using True b se by (auto simp: insertBeforeTerminator_code)
  next
    case False
    then have c1: "code ir1 b = butlast (code ir b) @
                  replicate (count_list (sourceBlocks t) b) (Store 0 ?sel) @ [last (code ir b)]"
      using o1 b by simp
    have g1: "getTerminator (code ir1 b) = Some (last (code ir b))"
      unfolding c1 using False by (rule getTerminator_insert)
    show ?thesis
    proof (cases "b = src")
      case True
      have "code ?ir3 src = butlast (code ir1 src) @ [Store 1 ?sel, last (code ir1 src)]"
        using g1 True se by (simp add: insertBeforeTerminator_code)
      also have "\<dots> = butlast (code ir src) @
                  replicate (count_list (sourceBlocks t) src) (Store 0 ?sel) @
                  [Store 1 ?sel] @ [last (code ir src)]"
        using c1 True by (simp add: butlast_append)
      finally show ?thesis using True False by simp
    next
      case False
      then show ?thesis using c1 b \<open>getTerminator (code ir b) \<noteq> None\<close>
        by (simp add: insertBeforeTerminator_code)
    qed
  qed
  show ?thesis using ex r3 e3 o3 by blast
qed

lemma requests_same:
  "exitTargets scope = [t] \<Longrightarrow> branchTarget t = d \<Longrightarrow> branchSelector scope = None \<Longrightarrow>
   \<forall>r \<in> set reqs. snd r = d \<Longrightarrow>
   requests reqs ir scope =
     Inr (ir, scope\<lparr>exitTargets := [t\<lparr>sourceBlocks := sourceBlocks t @ map fst reqs\<rparr>]\<rparr>)"
proof (induction reqs arbitrary: scope t)
  case Nil
  then show ?case by simp
next
  case (Cons r reqs)
  obtain src cw where r: "r = (src, cw)" by (cases r)
  with Cons.prems have cw: "cw = d" by simp
  let ?t' = "t\<lparr>sourceBlocks := sourceBlocks t @ [src]\<rparr>"
  let ?scope' = "scope\<lparr>exitTargets := [?t']\<rparr>"
  have e: "executeCleanup ir scope src cw = Inr (ir, ?scope')"
    using Cons.prems cw by (simp add: executeCleanup_same)
  have "requests reqs ir ?scope' =
     Inr (ir, ?scope'\<lparr>exitTargets := [?t'\<lparr>sourceBlocks := sourceBlocks ?t' @ map fst reqs\<rparr>]\<rparr>)"
    using Cons.prems by (intro Cons.IH) simp_all
  then show ?case using e r by simp
qed

text \<open>
  C1.  On a scope without exit targets and without selector, any non-empty
  sequence of requests that all name one destination succeeds and leaves the
  scope without selector, with the single exit target of that destination
  holding the source blocks in request order; the exit block has received, at
  its end, the unconditional branch to the destination and nothing else in the
  IR has changed (no slot is allocated).  When such a scope, whose exit block
  ends in the branch to its only destination, is asked for a different
  destination, the call succeeds and allocates exactly one slot, appended to
  the entry allocas and named after the entry block of the scope; it becomes
  the selector of the scope.  In every block other than the exit block that has
  a terminator, one store of 0 per recorded occurrence as a source block is
  inserted immediately before the terminator (followed, in the requesting
  block, by the store of 1); blocks without terminator are unchanged.  The
  branch that ended the exit block is replaced by the load of the selector and
  a switch on it whose default is the original destination and whose only case
  maps 1 to the new destination.  The source blocks recorded for a scope and
  the requesting block are blocks other than its exit block.
\<close>

theorem executeCleanup_selector_invariant:
  "(exitTargets scope = [] \<and> branchSelector scope = None \<and> reqs \<noteq> [] \<and>
    (\<forall>r \<in> set reqs. snd r = d) \<longrightarrow>
      (\<exists>ir' scope'. requests reqs ir scope = Inr (ir', scope') \<and>
         branchSelector scope' = None \<and>
         exitTargets scope' = [\<lparr>branchTarget = d, sourceBlocks = map fst reqs\<rparr>] \<and>
         beginBlock scope' = beginBlock scope \<and> endBlock scope' = endBlock scope \<and>
         code ir' (endBlock scope) = code ir (endBlock scope) @ [Br d] \<and>
         (\<forall>b. b \<noteq> endBlock scope \<longrightarrow> code ir' b = code ir b) \<and>
         allocas ir' = allocas ir)) \<and>
   (exitTargets scope = [t] \<and> branchTarget t \<noteq> cw \<and> branchSelector scope = None \<and>
    code ir (endBlock scope) = pre @ [Br (branchTarget t)] \<and>
    endBlock scope \<notin> set (sourceBlocks t) \<and> src \<noteq> endBlock scope \<longrightarrow>
      (\<exists>ir'. executeCleanup ir scope src cw =
            Inr (ir', scope\<lparr>branchSelector := Some (length (allocas ir)),
                            exitTargets := [t, \<lparr>branchTarget = cw, sourceBlocks = [src]\<rparr>]\<rparr>) \<and>
         allocas ir' = allocas ir @ [beginBlock scope] \<and>
         funcBlocks ir' = funcBlocks ir \<and> nextFresh ir' = nextFresh ir \<and>
         scopebb ir' = scopebb ir \<and>
         code ir' (endBlock scope) =
           pre @ [Load (length (allocas ir)),
                  Switch (length (allocas ir)) (branchTarget t) [(1, cw)]] \<and>
         (\<forall>b. b \<noteq> endBlock scope \<longrightarrow>
            code ir' b =
              (if getTerminator (code ir b) \<noteq> None
               then butlast (code ir b) @
                      replicate (count_list (sourceBlocks t) b) (Store 0 (length (allocas ir))) @
                      (if b = src then [Store 1 (length (allocas ir))] else []) @
                      [last (code ir b)]
               else code ir b))))"
proof (intro conjI impI)
  assume h: "exitTargets scope = [] \<and> branchSelector scope = None \<and> reqs \<noteq> [] \<and>
    (\<forall>r \<in> set reqs. snd r = d)"
  then obtain src rest where reqs: "reqs = (src, d) # rest"
    by (cases reqs) auto
  let ?ir1 = "ir\<lparr>code := (code ir)(endBlock scope := code ir (endBlock scope) @ [Br d])\<rparr>"
  let ?t = "\<lparr>branchTarget = d, sourceBlocks = [src]\<rparr>"
  let ?scope1 = "scope\<lparr>exitTargets := [?t]\<rparr>"
  have e: "executeCleanup ir scope src d = Inr (?ir1, ?scope1)"
    using h by (simp add: executeCleanup_first)
  have "requests rest ?ir1 ?scope1 =
     Inr (?ir1, ?scope1\<lparr>exitTargets := [?t\<lparr>sourceBlocks := sourceBlocks ?t @ map fst rest\<rparr>]\<rparr>)"
    using h reqs by (intro requests_same) auto
  then have "requests reqs ir scope =
     Inr (?ir1, ?scope1\<lparr>exitTargets := [?t\<lparr>sourceBlocks := sourceBlocks ?t @ map fst rest\<rparr>]\<rparr>)"
    using e reqs by simp
  then show "\<exists>ir' scope'. requests reqs ir scope = Inr (ir', scope') \<and>
         branchSelector scope' = None \<and>
         exitTargets scope' = [\<lparr>branchTarget = d, sourceBlocks = map fst reqs\<rparr>] \<and>
         beginBlock scope' = beginBlock scope \<and> endBlock scope' = endBlock scope \<and>
         code ir' (endBlock scope) = code ir (endBlock scope) @ [Br d] \<and>
         (\<forall>b. b \<noteq> endBlock scope \<longrightarrow> code ir' b = code ir b) \<and>
         allocas ir' = allocas ir"
    using h reqs by simp
next
  assume h: "exitTargets scope = [t] \<and> branchTarget t \<noteq> cw \<and> branchSelector scope = None \<and>
    code ir (endBlock scope) = pre @ [Br (branchTarget t)] \<and>
    endBlock scope \<notin> set (sourceBlocks t) \<and> src \<noteq> endBlock scope"
  show "\<exists>ir'. executeCleanup ir scope src cw =
            Inr (ir', scope\<lparr>branchSelector := Some (length (allocas ir)),
                            exitTargets := [t, \<lparr>branchTarget = cw, sourceBlocks = [src]\<rparr>]\<rparr>) \<and>
         allocas ir' = allocas ir @ [beginBlock scope] \<and>
         funcBlocks ir' = funcBlocks ir \<and> nextFresh ir' = nextFresh ir \<and>
         scopebb ir' = scopebb ir \<and>
         code ir' (endBlock scope) =
           pre @ [Load (length (allocas ir)),
                  Switch (length (allocas ir)) (branchTarget t) [(1, cw)]] \<and>
         (\<forall>b. b \<noteq> endBlock scope \<longrightarrow>
            code ir' b =
              (if getTerminator (code ir b) \<noteq> None
               then butlast (code ir b) @
                      replicate (count_list (sourceBlocks t) b) (Store 0 (length (allocas ir))) @
                      (if b = src then [Store 1 (length (allocas ir))] else []) @
                      [last (code ir b)]
               else code ir b))"
    by (rule executeCleanup_second) (simp_all add: h)
qed

theorem executeCleanup_selector_invariant_witness:
  "(\<exists>ir' scope'. requests [(10, 5), (11, 5)] (oneTargetIR\<lparr>code := (code oneTargetIR)(2 := [Other 7])\<rparr>)
        (CleanupScope 1 2) = Inr (ir', scope') \<and>
      scope' = oneTargetScope \<and> code ir' = code oneTargetIR \<and> allocas ir' = []) \<and>
   (\<exists>ir'. executeCleanup oneTargetIR oneTargetScope 12 6 =
        Inr (ir', oneTargetScope\<lparr>branchSelector := Some 0,
               exitTargets := [\<lparr>branchTarget = 5, sourceBlocks = [10, 11]\<rparr>,
                               \<lparr>branchTarget = 6, sourceBlocks = [12]\<rparr>]\<rparr>) \<and>
      allocas ir' = [1] \<and>
      code ir' 2 = [Other 7, Load 0, Switch 0 5 [(1, 6)]] \<and>
      code ir' 10 = [Store 0 0, Br 1] \<and>
      code ir' 11 = [Other 0, Store 0 0, Br 1] \<and>
      code ir' 12 = [Store 1 0, Br 1] \<and>
      code ir' 5 = [])"
proof -
  have a: "exitTargets (CleanupScope 1 2) = [] \<and> branchSelector (CleanupScope 1 2) = None \<and>
      [(10, 5), (11, 5)] \<noteq> [] \<and> (\<forall>r \<in> set [(10::nat, 5::nat), (11, 5)]. snd r = 5)"
    by (simp add: CleanupScope_def)
  from executeCleanup_selector_invariant
         [of "CleanupScope 1 2" "[(10, 5), (11, 5)]" 5
             "oneTargetIR\<lparr>code := (code oneTargetIR)(2 := [Other 7])\<rparr>", THEN conjunct1, rule_format, OF a]
  obtain ir' scope' where
    r: "requests [(10, 5), (11, 5)] (oneTargetIR\<lparr>code := (code oneTargetIR)(2 := [Other 7])\<rparr>)
          (CleanupScope 1 2) = Inr (ir', scope')" and
    p: "branchSelector scope' = None"
       "exitTargets scope' = [\<lparr>branchTarget = 5, sourceBlocks = map fst [(10::nat, 5::nat), (11, 5)]\<rparr>]"
       "beginBlock scope' = beginBlock (CleanupScope 1 2)"
       "endBlock scope' = endBlock (CleanupScope 1 2)"
       "allocas ir' = allocas (oneTargetIR\<lparr>code := (code oneTargetIR)(2 := [Other 7])\<rparr>)"
    by blast
  have e: "requests [(10, 5), (11, 5)] (oneTargetIR\<lparr>code := (code oneTargetIR)(2 := [Other 7])\<rparr>)
          (CleanupScope 1 2) =
        Inr (oneTargetIR, oneTargetScope)"
    by (simp add: oneTargetIR_def oneTargetScope_def mux_defs ir_defs fun_eq_iff)
  have 1: "\<exists>ir' scope'. requests [(10, 5), (11, 5)]
        (oneTargetIR\<lparr>code := (code oneTargetIR)(2 := [Other 7])\<rparr>)
        (CleanupScope 1 2) = Inr (ir', scope') \<and>
      scope' = oneTargetScope \<and> code ir' = code oneTargetIR \<and> allocas ir' = []"
    using r p e by (simp add: oneTargetIR_def)
  have b: "exitTargets oneTargetScope = [\<lparr>branchTarget = 5, sourceBlocks = [10, 11]\<rparr>] \<and>
    branchTarget \<lparr>branchTarget = 5, sourceBlocks = [10, 11]\<rparr> \<noteq> 6 \<and>
    branchSelector oneTargetScope = None \<and>
    code oneTargetIR (endBlock oneTargetScope) =
      [Other 7] @ [Br (branchTarget \<lparr>branchTarget = 5, sourceBlocks = [10, 11]\<rparr>)] \<and>
    endBlock oneTargetScope \<notin> set (sourceBlocks \<lparr>branchTarget = 5, sourceBlocks = [10, 11]\<rparr>) \<and>
    12 \<noteq> endBlock oneTargetScope"
    by (simp add: oneTargetIR_def oneTargetScope_def)
  from executeCleanup_selector_invariant
         [of oneTargetScope _ _ oneTargetIR "\<lparr>branchTarget = 5, sourceBlocks = [10, 11]\<rparr>" 6
             "[Other 7]" 12, THEN conjunct2, rule_format, OF b]
  have 2: "\<exists>ir'. executeCleanup oneTargetIR oneTargetScope 12 6 =
        Inr (ir', oneTargetScope\<lparr>branchSelector := Some 0,
               exitTargets := [\<lparr>branchTarget = 5, sourceBlocks = [10, 11]\<rparr>,
                               \<lparr>branchTarget = 6, sourceBlocks = [12]\<rparr>]\<rparr>) \<and>
      allocas ir' = [1] \<and>
      code ir' 2 = [Other 7, Load 0, Switch 0 5 [(1, 6)]] \<and>
      code ir' 10 = [Store 0 0, Br 1] \<and>
      code ir' 11 = [Other 0, Store 0 0, Br 1] \<and>
      code ir' 12 = [Store 1 0, Br 1] \<and>
      code ir' 5 = []"
    by (auto simp: oneTargetIR_def oneTargetScope_def getTerminator_def)
  from 1 2 show ?thesis by blast
qed

lemma createSelector_scope:
  "createSelector ir scope = Inr (sel, ir1, scope1) \<Longrightarrow>
   scope1 = scope\<lparr>branchSelector := Some sel\<rparr>"
  by (auto simp: createSelector_def Let_def createAlloca_def split: option.splits)

lemma createSelector_existing:
  "branchSelector scope = Some sel \<Longrightarrow> createSelector ir scope = Inr (sel, ir, scope)"
  by (simp add: createSelector_def)

lemma pushSource_target: "branchTarget (pushSource b t) = branchTarget t"
  by (simp add: pushSource_def)

lemma map_branchTarget_update:
  "i < length ts \<Longrightarrow>
   map branchTarget (ts[i := pushSource b (ts ! i)]) = map branchTarget ts"
  by (simp add: map_update pushSource_target list_update_same_conv)

lemma executeCleanup_targets:
  assumes "executeCleanup ir scope src cw = Inr (ir', scope')"
  shows "map branchTarget (exitTargets scope') =
     (if cw \<in> branchTarget ` set (exitTargets scope) then map branchTarget (exitTargets scope)
      else map branchTarget (exitTargets scope) @ [cw])"
proof (cases "exitTargets scope = [] \<or>
         (length (exitTargets scope) = 1 \<and> branchTarget (exitTargets scope ! 0) = cw)")
  case True
  then show ?thesis
  proof
    assume "exitTargets scope = []"
    with assms show ?thesis
      by (auto simp: executeCleanup_def pushSource_def CleanupExitTarget_def split: if_splits)
  next
    assume a: "length (exitTargets scope) = 1 \<and> branchTarget (exitTargets scope ! 0) = cw"
    then obtain t where t: "exitTargets scope = [t]" by (cases "exitTargets scope") auto
    with a assms show ?thesis
      by (auto simp: executeCleanup_def pushSource_def split: if_splits)
  qed
next
  case False
  with assms obtain sel ir1 scope1 where
    cs: "createSelector ir scope = Inr (sel, ir1, scope1)"
    by (auto simp: executeCleanup_def split: sum.splits)
  have s1: "exitTargets scope1 = exitTargets scope"
    using createSelector_scope [OF cs] by simp
  show ?thesis
  proof (cases "findExitTarget (exitTargets scope) cw 0")
    case None
    then have n: "cw \<notin> branchTarget ` set (exitTargets scope)"
      by (simp add: findExitTarget_None)
    from assms False cs None s1 have
      "exitTargets scope' = exitTargets scope @ [pushSource src (CleanupExitTarget cw)]"
      by (auto simp: executeCleanup_def Let_def split: sum.splits)
    then show ?thesis using n by (simp add: pushSource_def CleanupExitTarget_def)
  next
    case (Some i)
    from findExitTarget_Some [OF Some] have i: "i < length (exitTargets scope)"
      "branchTarget (exitTargets scope ! i) = cw" by simp_all
    then have m: "cw \<in> branchTarget ` set (exitTargets scope)"
      by (metis imageI nth_mem)
    from assms False cs Some s1 have
      "exitTargets scope' = (exitTargets scope)[i := pushSource src (exitTargets scope ! i)]"
      by (auto simp: executeCleanup_def Let_def split: sum.splits)
    then show ?thesis using m i by (simp add: map_branchTarget_update)
  qed
qed

lemma requests_targets:
  "requests reqs ir scope = Inr (ir', scope') \<Longrightarrow>
   map branchTarget (exitTargets scope') =
     firstOccurrences (map branchTarget (exitTargets scope)) (map snd reqs)"
proof (induction reqs arbitrary: ir scope)
  case Nil
  then show ?case by simp
next
  case (Cons r reqs)
  obtain src cw where r: "r = (src, cw)" by (cases r)
  with Cons.prems obtain ir1 scope1 where
    e: "executeCleanup ir scope src cw = Inr (ir1, scope1)" and
    q: "requests reqs ir1 scope1 = Inr (ir', scope')"
    by (auto split: sum.splits)
  show ?case
    using Cons.IH [OF q] executeCleanup_targets [OF e] r by simp
qed

lemma firstOccurrences_prefix:
  "\<exists>new. firstOccurrences known ds = known @ new"
proof (induction ds arbitrary: known)
  case Nil
  then show ?case by simp
next
  case (Cons d ds)
  show ?case
  proof (cases "d \<in> set known")
    case True
    then show ?thesis using Cons.IH [of known] by simp
  next
    case False
    then show ?thesis using Cons.IH [of "known @ [d]"] by auto
  qed
qed

lemma firstOccurrences_distinct:
  "distinct known \<Longrightarrow> distinct (firstOccurrences known ds)"
  by (induction ds arbitrary: known) simp_all

lemma firstOccurrences_set:
  "set (firstOccurrences known ds) = set known \<union> set ds"
  by (induction ds arbitrary: known) auto

lemma executeCleanup_known:
  assumes "branchSelector scope = Some sel" "length (exitTargets scope) \<noteq> 1"
    and "i < length (exitTargets scope)" "branchTarget (exitTargets scope ! i) = cw"
    and "distinct (map branchTarget (exitTargets scope))"
  shows "executeCleanup ir scope src cw =
     Inr (insertBeforeTerminator src (Store i sel) ir,
          scope\<lparr>exitTargets := (exitTargets scope)
                  [i := (exitTargets scope ! i)
                     \<lparr>sourceBlocks := sourceBlocks (exitTargets scope ! i) @ [src]\<rparr>]\<rparr>)"
proof -
  have f: "findExitTarget (exitTargets scope) cw 0 = Some i"
    using findExitTarget_distinct [OF assms(5) assms(3) assms(4), of 0] by simp
  have n: "exitTargets scope \<noteq> []" using assms(3) by auto
  show ?thesis
    using assms(1,2) n f
    by (simp add: executeCleanup_def createSelector_existing pushSource_def)
qed

lemma executeCleanup_new:
  assumes "branchSelector scope = Some sel" "exitTargets scope \<noteq> []"
    and "cw \<notin> branchTarget ` set (exitTargets scope)"
    and "code ir (endBlock scope) = pre @ [Switch p d cs]"
  shows "executeCleanup ir scope src cw =
     Inr (insertBeforeTerminator src (Store (length (exitTargets scope)) sel)
            (ir\<lparr>code := (code ir)(endBlock scope :=
                   pre @ [Switch p d (cs @ [(length (exitTargets scope), cw)])])\<rparr>),
          scope\<lparr>exitTargets := exitTargets scope @ [\<lparr>branchTarget = cw, sourceBlocks = [src]\<rparr>]\<rparr>)"
proof -
  have f: "findExitTarget (exitTargets scope) cw 0 = None"
    using assms(3) by (simp add: findExitTarget_None)
  have c: "\<not> (length (exitTargets scope) = 1 \<and> branchTarget (exitTargets scope ! 0) = cw)"
  proof
    assume a: "length (exitTargets scope) = 1 \<and> branchTarget (exitTargets scope ! 0) = cw"
    then have "exitTargets scope ! 0 \<in> set (exitTargets scope)" by (intro nth_mem) simp
    with a assms(3) show False by auto
  qed
  have a: "addCase (endBlock scope) (length (exitTargets scope)) cw ir =
      Inr (ir\<lparr>code := (code ir)(endBlock scope :=
                   pre @ [Switch p d (cs @ [(length (exitTargets scope), cw)])])\<rparr>)"
    by (simp add: addCase_def assms(4) getTerminator_def)
  show ?thesis
    using assms(1,2) c f a
    by (simp add: executeCleanup_def createSelector_existing pushSource_def Let_def
          CleanupExitTarget_def)
qed

text \<open>
  C2.  For any successful sequence of requests on a scope, the destinations of
  its exit targets afterwards are those it had, in place, followed by the new
  destinations in the order of their first occurrence: the index of an exit
  target never changes, no destination is entered twice, and on a scope
  without exit targets the first destination requested is at index 0.  The
  second destination gets index 1, the exit-target count at that moment, as the
  single case of the new switch, and the store of 1 before the terminator of
  the requesting block.  In a scope that has its selector, a destination not
  yet known gets the index equal to the exit-target count: the switch that ends
  the exit block gets one more case, mapping this index to the destination,
  a store of this index is inserted immediately before the terminator of the
  source block, and an exit target is appended; a destination known at index
  \<open>i\<close> gets only the store of \<open>i\<close> immediately before the terminator of the
  source block, its exit target recording the source block.  No slot is
  allocated in either case.  In a scope with a single exit target and no
  selector, a request for the destination of that target inserts no store: the
  IR is unchanged and the source block is recorded with the target; the store
  of 0 for it is inserted when the selector is created.
\<close>

theorem selector_indices_stable:
  "(requests reqs ir scope = Inr (ir', scope') \<longrightarrow>
      map branchTarget (exitTargets scope') =
        firstOccurrences (map branchTarget (exitTargets scope)) (map snd reqs) \<and>
      length (exitTargets scope) \<le> length (exitTargets scope') \<and>
      (\<forall>i < length (exitTargets scope).
         branchTarget (exitTargets scope' ! i) = branchTarget (exitTargets scope ! i)) \<and>
      (distinct (map branchTarget (exitTargets scope)) \<longrightarrow>
         distinct (map branchTarget (exitTargets scope'))) \<and>
      (exitTargets scope = [] \<and> reqs \<noteq> [] \<longrightarrow>
         branchTarget (exitTargets scope' ! 0) = snd (hd reqs))) \<and>
   (exitTargets scope = [t] \<and> branchTarget t \<noteq> cw \<and> branchSelector scope = None \<and>
    code ir (endBlock scope) = pre @ [Br (branchTarget t)] \<and>
    endBlock scope \<notin> set (sourceBlocks t) \<and> src \<noteq> endBlock scope \<and>
    getTerminator (code ir src) \<noteq> None \<longrightarrow>
      (\<exists>ir1. executeCleanup ir scope src cw =
            Inr (ir1, scope\<lparr>branchSelector := Some (length (allocas ir)),
                            exitTargets := [t, \<lparr>branchTarget = cw, sourceBlocks = [src]\<rparr>]\<rparr>) \<and>
         code ir1 (endBlock scope) =
           pre @ [Load (length (allocas ir)),
                  Switch (length (allocas ir)) (branchTarget t) [(1, cw)]] \<and>
         code ir1 src =
           butlast (code ir src) @
             replicate (count_list (sourceBlocks t) src) (Store 0 (length (allocas ir))) @
             [Store 1 (length (allocas ir)), last (code ir src)])) \<and>
   (branchSelector scope = Some sel \<and> exitTargets scope \<noteq> [] \<and>
    cw \<notin> branchTarget ` set (exitTargets scope) \<and>
    code ir (endBlock scope) = pre @ [Switch p d cs] \<and> src \<noteq> endBlock scope \<and>
    getTerminator (code ir src) \<noteq> None \<longrightarrow>
      executeCleanup ir scope src cw =
        Inr (ir\<lparr>code := (code ir)
                 (endBlock scope := pre @ [Switch p d (cs @ [(length (exitTargets scope), cw)])],
                  src := butlast (code ir src) @
                           [Store (length (exitTargets scope)) sel, last (code ir src)])\<rparr>,
             scope\<lparr>exitTargets :=
                exitTargets scope @ [\<lparr>branchTarget = cw, sourceBlocks = [src]\<rparr>]\<rparr>)) \<and>
   (branchSelector scope = Some sel \<and> length (exitTargets scope) \<noteq> 1 \<and>
    i < length (exitTargets scope) \<and> branchTarget (exitTargets scope ! i) = cw \<and>
    distinct (map branchTarget (exitTargets scope)) \<and>
    getTerminator (code ir src) \<noteq> None \<longrightarrow>
      executeCleanup ir scope src cw =
        Inr (ir\<lparr>code := (code ir)
                 (src := butlast (code ir src) @ [Store i sel, last (code ir src)])\<rparr>,
             scope\<lparr>exitTargets := (exitTargets scope)
                  [i := (exitTargets scope ! i)
                     \<lparr>sourceBlocks := sourceBlocks (exitTargets scope ! i) @ [src]\<rparr>]\<rparr>)) \<and>
   (exitTargets scope = [t] \<and> branchTarget t = cw \<and> branchSelector scope = None \<longrightarrow>
      executeCleanup ir scope src cw =
        Inr (ir, scope\<lparr>exitTargets := [t\<lparr>sourceBlocks := sourceBlocks t @ [src]\<rparr>]\<rparr>))"
proof (intro conjI impI)
  assume r: "requests reqs ir scope = Inr (ir', scope')"
  let ?old = "map branchTarget (exitTargets scope)"
  have m: "map branchTarget (exitTargets scope') = firstOccurrences ?old (map snd reqs)"
    using r by (rule requests_targets)
  then show "map branchTarget (exitTargets scope') = firstOccurrences ?old (map snd reqs)" .
  from firstOccurrences_prefix [of ?old "map snd reqs"] m
  obtain new where n: "map branchTarget (exitTargets scope') = ?old @ new" by auto
  from n have "length (map branchTarget (exitTargets scope')) = length (?old @ new)" by simp
  then show l: "length (exitTargets scope) \<le> length (exitTargets scope')" by simp
  show "\<forall>i < length (exitTargets scope).
         branchTarget (exitTargets scope' ! i) = branchTarget (exitTargets scope ! i)"
  proof (intro allI impI)
    fix i assume i: "i < length (exitTargets scope)"
    then have "map branchTarget (exitTargets scope') ! i = ?old ! i"
      by (simp add: n nth_append)
    then show "branchTarget (exitTargets scope' ! i) = branchTarget (exitTargets scope ! i)"
      using i l by simp
  qed
  {
    assume "distinct ?old"
    then show "distinct (map branchTarget (exitTargets scope'))"
      by (simp add: m firstOccurrences_distinct)
  }
  {
    assume e: "exitTargets scope = [] \<and> reqs \<noteq> []"
    then obtain q qs where q: "reqs = q # qs" by (cases reqs) auto
    from firstOccurrences_prefix [of "[snd q]" "map snd qs"] m e q
    obtain new' where "map branchTarget (exitTargets scope') = snd q # new'" by auto
    then have "map branchTarget (exitTargets scope') ! 0 = snd q" by simp
    moreover have "exitTargets scope' \<noteq> []"
      using \<open>map branchTarget (exitTargets scope') = snd q # new'\<close> by auto
    ultimately show "branchTarget (exitTargets scope' ! 0) = snd (hd reqs)"
      using q by (simp add: nth_map)
  }
next
  assume h: "exitTargets scope = [t] \<and> branchTarget t \<noteq> cw \<and> branchSelector scope = None \<and>
    code ir (endBlock scope) = pre @ [Br (branchTarget t)] \<and>
    endBlock scope \<notin> set (sourceBlocks t) \<and> src \<noteq> endBlock scope \<and>
    getTerminator (code ir src) \<noteq> None"
  have "\<exists>ir'. executeCleanup ir scope src cw =
            Inr (ir', scope\<lparr>branchSelector := Some (length (allocas ir)),
                            exitTargets := [t, \<lparr>branchTarget = cw, sourceBlocks = [src]\<rparr>]\<rparr>) \<and>
     allocas ir' = allocas ir @ [beginBlock scope] \<and>
     funcBlocks ir' = funcBlocks ir \<and> nextFresh ir' = nextFresh ir \<and> scopebb ir' = scopebb ir \<and>
     code ir' (endBlock scope) =
       pre @ [Load (length (allocas ir)),
              Switch (length (allocas ir)) (branchTarget t) [(1, cw)]] \<and>
     (\<forall>b. b \<noteq> endBlock scope \<longrightarrow>
        code ir' b =
          (if getTerminator (code ir b) \<noteq> None
           then butlast (code ir b) @
                  replicate (count_list (sourceBlocks t) b) (Store 0 (length (allocas ir))) @
                  (if b = src then [Store 1 (length (allocas ir))] else []) @
                  [last (code ir b)]
           else code ir b))"
    by (rule executeCleanup_second) (simp_all add: h)
  then obtain ir1 where
    e: "executeCleanup ir scope src cw =
            Inr (ir1, scope\<lparr>branchSelector := Some (length (allocas ir)),
                            exitTargets := [t, \<lparr>branchTarget = cw, sourceBlocks = [src]\<rparr>]\<rparr>)" and
    c: "code ir1 (endBlock scope) =
           pre @ [Load (length (allocas ir)),
                  Switch (length (allocas ir)) (branchTarget t) [(1, cw)]]" and
    o: "\<forall>b. b \<noteq> endBlock scope \<longrightarrow>
        code ir1 b =
          (if getTerminator (code ir b) \<noteq> None
           then butlast (code ir b) @
                  replicate (count_list (sourceBlocks t) b) (Store 0 (length (allocas ir))) @
                  (if b = src then [Store 1 (length (allocas ir))] else []) @
                  [last (code ir b)]
           else code ir b)"
    by (elim exE conjE)
  have "code ir1 src =
           butlast (code ir src) @
             replicate (count_list (sourceBlocks t) src) (Store 0 (length (allocas ir))) @
             [Store 1 (length (allocas ir)), last (code ir src)]"
    using o h by simp
  with e c show "\<exists>ir1. executeCleanup ir scope src cw =
            Inr (ir1, scope\<lparr>branchSelector := Some (length (allocas ir)),
                            exitTargets := [t, \<lparr>branchTarget = cw, sourceBlocks = [src]\<rparr>]\<rparr>) \<and>
         code ir1 (endBlock scope) =
           pre @ [Load (length (allocas ir)),
                  Switch (length (allocas ir)) (branchTarget t) [(1, cw)]] \<and>
         code ir1 src =
           butlast (code ir src) @
             replicate (count_list (sourceBlocks t) src) (Store 0 (length (allocas ir))) @
             [Store 1 (length (allocas ir)), last (code ir src)]"
    by blast
next
  assume h: "branchSelector scope = Some sel \<and> exitTargets scope \<noteq> [] \<and>
    cw \<notin> branchTarget ` set (exitTargets scope) \<and>
    code ir (endBlock scope) = pre @ [Switch p d cs] \<and> src \<noteq> endBlock scope \<and>
    getTerminator (code ir src) \<noteq> None"
  then obtain tm where tm: "getTerminator (code ir src) = Some tm" by auto
  then have l: "last (code ir src) = tm" by (simp add: getTerminator_Some)
  let ?ir1 = "ir\<lparr>code := (code ir)(endBlock scope :=
                   pre @ [Switch p d (cs @ [(length (exitTargets scope), cw)])])\<rparr>"
  have "getTerminator (code ?ir1 src) = Some tm" using h tm by simp
  then have "insertBeforeTerminator src (Store (length (exitTargets scope)) sel) ?ir1 =
      ?ir1\<lparr>code := (code ?ir1)(src := butlast (code ?ir1 src) @
                 [Store (length (exitTargets scope)) sel, tm])\<rparr>"
    by (rule insertBeforeTerminator_eq)
  then show "executeCleanup ir scope src cw =
        Inr (ir\<lparr>code := (code ir)
                 (endBlock scope := pre @ [Switch p d (cs @ [(length (exitTargets scope), cw)])],
                  src := butlast (code ir src) @
                           [Store (length (exitTargets scope)) sel, last (code ir src)])\<rparr>,
             scope\<lparr>exitTargets :=
                exitTargets scope @ [\<lparr>branchTarget = cw, sourceBlocks = [src]\<rparr>]\<rparr>)"
    using h l executeCleanup_new [of scope sel cw ir pre p d cs src] by simp
next
  assume h: "branchSelector scope = Some sel \<and> length (exitTargets scope) \<noteq> 1 \<and>
    i < length (exitTargets scope) \<and> branchTarget (exitTargets scope ! i) = cw \<and>
    distinct (map branchTarget (exitTargets scope)) \<and>
    getTerminator (code ir src) \<noteq> None"
  then obtain tm where tm: "getTerminator (code ir src) = Some tm" by auto
  then have l: "last (code ir src) = tm" by (simp add: getTerminator_Some)
  show "executeCleanup ir scope src cw =
        Inr (ir\<lparr>code := (code ir)
                 (src := butlast (code ir src) @ [Store i sel, last (code ir src)])\<rparr>,
             scope\<lparr>exitTargets := (exitTargets scope)
                  [i := (exitTargets scope ! i)
                     \<lparr>sourceBlocks := sourceBlocks (exitTargets scope ! i) @ [src]\<rparr>]\<rparr>)"
    using h l executeCleanup_known [of scope sel i cw ir src]
      insertBeforeTerminator_eq [OF tm, of "Store i sel"]
    by simp
next
  assume "exitTargets scope = [t] \<and> branchTarget t = cw \<and> branchSelector scope = None"
  then show "executeCleanup ir scope src cw =
        Inr (ir, scope\<lparr>exitTargets := [t\<lparr>sourceBlocks := sourceBlocks t @ [src]\<rparr>]\<rparr>)"
    by (simp add: executeCleanup_same)
qed

theorem selector_indices_stable_witness:
  "(\<exists>ir' scope'.
      requests [(10, 5), (11, 5), (12, 6), (13, 8), (12, 5)]
        (oneTargetIR\<lparr>code := (code oneTargetIR)(2 := [Other 7], 13 := [Br 1])\<rparr>)
        (CleanupScope 1 2) = Inr (ir', scope') \<and>
      map branchTarget (exitTargets scope') = [5, 6, 8] \<and>
      code ir' 2 = [Other 7, Load 0, Switch 0 5 [(1, 6), (2, 8)]]) \<and>
   (\<exists>ir1. executeCleanup oneTargetIR oneTargetScope 12 6 =
        Inr (ir1, oneTargetScope\<lparr>branchSelector := Some 0,
               exitTargets := [\<lparr>branchTarget = 5, sourceBlocks = [10, 11]\<rparr>,
                               \<lparr>branchTarget = 6, sourceBlocks = [12]\<rparr>]\<rparr>) \<and>
      code ir1 2 = [Other 7, Load 0, Switch 0 5 [(1, 6)]] \<and>
      code ir1 12 = [Store 1 0, Br 1]) \<and>
   executeCleanup twoTargetsIR twoTargetsScope 13 8 =
     Inr (twoTargetsIR\<lparr>code := (code twoTargetsIR)
              (2 := [Other 7, Load 0, Switch 0 5 [(1, 6), (2, 8)]], 13 := [Store 2 0, Br 1])\<rparr>,
          twoTargetsScope\<lparr>exitTargets :=
             [\<lparr>branchTarget = 5, sourceBlocks = [10, 11]\<rparr>,
              \<lparr>branchTarget = 6, sourceBlocks = [12]\<rparr>,
              \<lparr>branchTarget = 8, sourceBlocks = [13]\<rparr>]\<rparr>) \<and>
   executeCleanup twoTargetsIR twoTargetsScope 13 6 =
     Inr (twoTargetsIR\<lparr>code := (code twoTargetsIR)(13 := [Store 1 0, Br 1])\<rparr>,
          twoTargetsScope\<lparr>exitTargets :=
             [\<lparr>branchTarget = 5, sourceBlocks = [10, 11]\<rparr>,
              \<lparr>branchTarget = 6, sourceBlocks = [12, 13]\<rparr>]\<rparr>) \<and>
   executeCleanup oneTargetIR oneTargetScope 12 5 =
     Inr (oneTargetIR,
          oneTargetScope\<lparr>exitTargets := [\<lparr>branchTarget = 5, sourceBlocks = [10, 11, 12]\<rparr>]\<rparr>)"
proof -
  let ?ir = "oneTargetIR\<lparr>code := (code oneTargetIR)(2 := [Other 7], 13 := [Br 1])\<rparr>"
  let ?reqs = "[(10, 5), (11, 5), (12, 6), (13, 8), (12, 5)] :: (nat \<times> nat) list"
  have "\<exists>ir' scope'. requests ?reqs ?ir (CleanupScope 1 2) = Inr (ir', scope') \<and>
      code ir' 2 = [Other 7, Load 0, Switch 0 5 [(1, 6), (2, 8)]]"
    by (simp add: oneTargetIR_def mux_defs ir_defs Let_def)
  then obtain ir' scope' where
    r: "requests ?reqs ?ir (CleanupScope 1 2) = Inr (ir', scope')" and
    c: "code ir' 2 = [Other 7, Load 0, Switch 0 5 [(1, 6), (2, 8)]]"
    by blast
  from selector_indices_stable [of ?reqs ?ir "CleanupScope 1 2" ir' scope', THEN conjunct1] r
  have "map branchTarget (exitTargets scope') =
      firstOccurrences (map branchTarget (exitTargets (CleanupScope 1 2))) (map snd ?reqs)"
    by blast
  then have "map branchTarget (exitTargets scope') = [5, 6, 8]"
    by (simp add: CleanupScope_def)
  with r c have 1: "\<exists>ir' scope'. requests ?reqs ?ir (CleanupScope 1 2) = Inr (ir', scope') \<and>
      map branchTarget (exitTargets scope') = [5, 6, 8] \<and>
      code ir' 2 = [Other 7, Load 0, Switch 0 5 [(1, 6), (2, 8)]]"
    by (intro exI [of _ ir'] exI [of _ scope'] conjI)
  have 2: "\<exists>ir1. executeCleanup oneTargetIR oneTargetScope 12 6 =
        Inr (ir1, oneTargetScope\<lparr>branchSelector := Some 0,
               exitTargets := [\<lparr>branchTarget = 5, sourceBlocks = [10, 11]\<rparr>,
                               \<lparr>branchTarget = 6, sourceBlocks = [12]\<rparr>]\<rparr>) \<and>
      code ir1 2 = [Other 7, Load 0, Switch 0 5 [(1, 6)]] \<and>
      code ir1 12 = [Store 1 0, Br 1]"
    using selector_indices_stable
         [of _ oneTargetIR oneTargetScope _ _ "\<lparr>branchTarget = 5, sourceBlocks = [10, 11]\<rparr>" 6
             "[Other 7]" 12, THEN conjunct2, THEN conjunct1]
    by (simp add: oneTargetIR_def oneTargetScope_def getTerminator_def)
  have 3: "executeCleanup twoTargetsIR twoTargetsScope 13 8 =
     Inr (twoTargetsIR\<lparr>code := (code twoTargetsIR)
              (2 := [Other 7, Load 0, Switch 0 5 [(1, 6), (2, 8)]], 13 := [Store 2 0, Br 1])\<rparr>,
          twoTargetsScope\<lparr>exitTargets :=
             [\<lparr>branchTarget = 5, sourceBlocks = [10, 11]\<rparr>,
              \<lparr>branchTarget = 6, sourceBlocks = [12]\<rparr>,
              \<lparr>branchTarget = 8, sourceBlocks = [13]\<rparr>]\<rparr>)"
    using selector_indices_stable
         [of _ twoTargetsIR twoTargetsScope _ _ _ 8 "[Other 7, Load 0]" 13 0 0 5 "[(1, 6)]",
          THEN conjunct2, THEN conjunct2, THEN conjunct1]
    by (simp add: twoTargetsIR_def twoTargetsScope_def getTerminator_def numeral_2_eq_2)
  have 4: "executeCleanup twoTargetsIR twoTargetsScope 13 6 =
     Inr (twoTargetsIR\<lparr>code := (code twoTargetsIR)(13 := [Store 1 0, Br 1])\<rparr>,
          twoTargetsScope\<lparr>exitTargets :=
             [\<lparr>branchTarget = 5, sourceBlocks = [10, 11]\<rparr>,
              \<lparr>branchTarget = 6, sourceBlocks = [12, 13]\<rparr>]\<rparr>)"
    using selector_indices_stable
         [of _ twoTargetsIR twoTargetsScope _ _ _ 6 _ 13 0 _ _ _ 1,
          THEN conjunct2, THEN conjunct2, THEN conjunct2, THEN conjunct1]
    by (simp add: twoTargetsIR_def twoTargetsScope_def getTerminator_def numeral_2_eq_2)
  have 5: "executeCleanup oneTargetIR oneTargetScope 12 5 =
     Inr (oneTargetIR,
          oneTargetScope\<lparr>exitTargets := [\<lparr>branchTarget = 5, sourceBlocks = [10, 11, 12]\<rparr>]\<rparr>)"
    using selector_indices_stable
         [of _ oneTargetIR oneTargetScope _ _ "\<lparr>branchTarget = 5, sourceBlocks = [10, 11]\<rparr>" 5
             _ 12, THEN conjunct2, THEN conjunct2, THEN conjunct2, THEN conjunct2]
    by (simp add: oneTargetScope_def)
  from 1 2 3 4 5 show ?thesis by (intro conjI)
qed

text \<open>
  The clause of the specification that a destination known at index \<open>i\<close> gets a
  store of \<open>i\<close> does not hold for every scope.  In the example scope the
  destination 5 is known at index 0 and the scope has no selector; block 12
  ends in its terminator; the request for 5 from block 12 returns the IR as it
  was, in which block 12 is its branch alone, without any store.
\<close>

theorem known_destination_without_selector_counterexample:
  "branchTarget (exitTargets oneTargetScope ! 0) = 5 \<and>
   branchSelector oneTargetScope = None \<and>
   getTerminator (code oneTargetIR 12) = Some (Br 1) \<and>
   executeCleanup oneTargetIR oneTargetScope 12 5 =
     Inr (oneTargetIR,
          oneTargetScope\<lparr>exitTargets := [\<lparr>branchTarget = 5, sourceBlocks = [10, 11, 12]\<rparr>]\<rparr>) \<and>
   code oneTargetIR 12 = [Br 1]"
  by (simp add: oneTargetIR_def oneTargetScope_def executeCleanup_def pushSource_def
        getTerminator_def)

subsection \<open>Closing scopes\<close>

lemma runPopSteps_append:
  "runPopSteps (xs @ ys) s =
     (case runPopSteps xs s of Inl e \<Rightarrow> Inl e | Inr s' \<Rightarrow> runPopSteps ys s')"
  by (induction xs arbitrary: s) (simp_all split: sum.splits)

lemma popCleanupsGotos_steps:
  "popCleanupsGotos gs i s = runPopSteps (map (Unwind i) gs) s"
  by (induction gs arbitrary: s) (simp_all add: Let_def split: sum.splits prod.splits)

lemma executeCleanup_gotos:
  "executeCleanup ir scope src cw = Inr (ir', scope') \<Longrightarrow>
   unresolvedGotos scope' = unresolvedGotos scope"
  by (auto simp: executeCleanup_def Let_def createSelector_def createAlloca_def
      split: if_splits sum.splits option.splits prod.splits)

lemma popCleanupsGotos_lists:
  "popCleanupsGotos gs i s = Inr s1 \<Longrightarrow>
   map unresolvedGotos (cleanupScopes s1) = map unresolvedGotos (cleanupScopes s) \<and>
   topLevelUnresolvedGotos s1 = topLevelUnresolvedGotos s"
proof (induction gs arbitrary: s)
  case Nil
  then show ?case by simp
next
  case (Cons g gs)
  let ?ir1 = "replaceAllUsesWith (tentativeTarget g) (beginBlock (cleanupScopes s ! i)) (irs s)"
  from Cons.prems obtain ir2 sc' where
    e: "executeCleanup ?ir1 (cleanupScopes s ! i) (sourceBlock g) (tentativeTarget g) = Inr (ir2, sc')"
    and r: "popCleanupsGotos gs i (s\<lparr>irs := ir2, cleanupScopes := (cleanupScopes s)[i := sc']\<rparr>) = Inr s1"
    by (auto simp: Let_def split: sum.splits)
  have u: "unresolvedGotos sc' = unresolvedGotos (cleanupScopes s ! i)"
    using e by (rule executeCleanup_gotos)
  have "map unresolvedGotos ((cleanupScopes s)[i := sc']) = map unresolvedGotos (cleanupScopes s)"
  proof (cases "i < length (cleanupScopes s)")
    case True
    then show ?thesis by (simp add: map_update u list_update_same_conv)
  next
    case False
    then have "length (cleanupScopes s) \<le> i" by simp
    then show ?thesis by (simp add: list_update_beyond)
  qed
  then show ?case using Cons.IH [OF r] by simp
qed

lemma popCleanupsGotos_length:
  "popCleanupsGotos gs i s = Inr s1 \<Longrightarrow> length (cleanupScopes s1) = length (cleanupScopes s)"
  using popCleanupsGotos_lists [of gs i s s1]
  by (metis length_map)

lemma butlast_update_last:
  "length cs = Suc i \<Longrightarrow> 0 < i \<Longrightarrow> butlast (cs[i - 1 := x]) = take (i - 1) cs @ [x]"
proof -
  assume l: "length cs = Suc i" and i: "0 < i"
  have "butlast (cs[i - 1 := x]) = take i (cs[i - 1 := x])"
    using l by (simp add: butlast_conv_take)
  also have "\<dots> = (take i cs)[i - 1 := x]"
    by (simp add: take_update_swap)
  also have "take i cs = take (i - 1) cs @ [cs ! (i - 1)]"
    using l i by (metis Suc_pred' lessI less_SucI take_Suc_conv_app_nth)
  also have "(take (i - 1) cs @ [cs ! (i - 1)])[i - 1 := x] = take (i - 1) cs @ [x]"
    using l i by (simp add: list_update_append)
  finally show ?thesis .
qed

lemma mergePop_close:
  assumes "length (cleanupScopes s) = Suc i"
  shows "(mergeUnresolved i s)\<lparr>cleanupScopes := butlast (cleanupScopes (mergeUnresolved i s))\<rparr> =
         closeScope i s"
proof -
  from assms have ne: "cleanupScopes s \<noteq> []" by auto
  have l: "last (cleanupScopes s) = cleanupScopes s ! i"
    using assms ne by (simp add: last_conv_nth)
  show ?thesis
  proof (cases "i = 0")
    case True
    then have "butlast (cleanupScopes s) = []" using assms by (cases "cleanupScopes s") auto
    then show ?thesis using True ne l
      by (simp add: mergeUnresolved_def closeScope_def currentUnresolvedGotos_def)
  next
    case False
    then show ?thesis
      using ne l assms
        butlast_update_last [of "cleanupScopes s" i
          "(cleanupScopes s ! (i - 1))
             \<lparr>unresolvedGotos := unresolvedGotos (cleanupScopes s ! (i - 1)) @
                unresolvedGotos (cleanupScopes s ! i)\<rparr>"]
      by (simp add: mergeUnresolved_def closeScope_def currentUnresolvedGotos_def)
  qed
qed

lemma closeScope_length:
  "length (cleanupScopes s) = Suc i \<Longrightarrow> length (cleanupScopes (closeScope i s)) = i"
  by (auto simp: closeScope_def)

lemma closeScope_lists:
  assumes "length (cleanupScopes s) = Suc i" "0 < i"
  shows "map unresolvedGotos (cleanupScopes (closeScope i s)) =
           take (i - 1) (map unresolvedGotos (cleanupScopes s)) @
             [concat (drop (i - 1) (map unresolvedGotos (cleanupScopes s)))]"
proof -
  let ?G = "map unresolvedGotos (cleanupScopes s)"
  have "drop (i - 1) ?G = [?G ! (i - 1), ?G ! i]"
    using assms
    by (metis Cons_nth_drop_Suc Suc_pred' drop_all length_map lessI less_SucI order_refl)
  then show ?thesis using assms by (simp add: closeScope_def take_map)
qed

lemma concat_drop_close:
  assumes "k < i" "i \<le> length G"
  shows "concat (drop k (take (i - 1) G @ [concat (drop (i - 1) G)])) = concat (drop k G)"
proof -
  have k: "k \<le> i - 1" using assms by simp
  have "drop k G = drop k (take (i - 1) G) @ drop (i - 1) G"
    using k assms by (metis append_take_drop_id drop_append drop_take le_add_diff_inverse2
        length_take min.absorb2 diff_is_0_eq' drop_0 diff_le_self le_trans) 
  then show ?thesis using k assms by simp
qed

lemma pendingAt_lists:
  "pendingAt k s = concat (drop k (map unresolvedGotos (cleanupScopes s)))"
  by (simp add: pendingAt_def drop_map)

lemma pendingAt_last:
  "length (cleanupScopes s) = Suc i \<Longrightarrow> pendingAt i s = currentUnresolvedGotos s"
proof -
  assume l: "length (cleanupScopes s) = Suc i"
  then have ne: "cleanupScopes s \<noteq> []" by auto
  have "drop i (cleanupScopes s) = [last (cleanupScopes s)]"
    using l ne by (metis append_butlast_last_id butlast_conv_take append_take_drop_id
        same_append_eq diff_Suc_1)
  then show ?thesis using ne by (simp add: pendingAt_def currentUnresolvedGotos_def)
qed

lemma pendingAt_close:
  assumes "length (cleanupScopes s) = Suc i" "k < i"
  shows "pendingAt k (closeScope i s) = pendingAt k s"
proof -
  have i: "0 < i" using assms by simp
  show ?thesis
    using assms concat_drop_close [of k i "map unresolvedGotos (cleanupScopes s)"]
    by (simp add: pendingAt_lists closeScope_lists [OF assms(1) i])
qed

lemma popCleanupsLoop_steps:
  "length (cleanupScopes s) = i \<Longrightarrow>
   popCleanupsLoop i t s =
     runPopSteps (concat (map (\<lambda>k. map (Unwind k) (pendingAt k s) @ [Close k])
                            (rev [t ..< i]))) s"
proof (induction i arbitrary: s)
  case 0
  then show ?case by simp
next
  case (Suc i)
  show ?case
  proof (cases "Suc i > t")
    case False
    then show ?thesis by simp
  next
    case True
    then have r: "rev [t ..< Suc i] = i # rev [t ..< i]" by simp
    let ?rest = "\<lambda>s. concat (map (\<lambda>k. map (Unwind k) (pendingAt k s) @ [Close k]) (rev [t ..< i]))"
    have p: "pendingAt i s = currentUnresolvedGotos s"
      using Suc.prems by (rule pendingAt_last)
    show ?thesis
    proof (cases "popCleanupsGotos (currentUnresolvedGotos s) i s")
      case (Inl e)
      then show ?thesis using True unfolding r
        by (simp add: p runPopSteps_append popCleanupsGotos_steps [symmetric])
    next
      case (Inr s1)
      have l1: "length (cleanupScopes s1) = Suc i"
        using popCleanupsGotos_length [OF Inr] Suc.prems by simp
      have g1: "map unresolvedGotos (cleanupScopes s1) = map unresolvedGotos (cleanupScopes s)"
        using popCleanupsGotos_lists [OF Inr] by simp
      let ?s3 = "closeScope i s1"
      have l3: "length (cleanupScopes ?s3) = i" using l1 by (rule closeScope_length)
      have "map (\<lambda>k. map (Unwind k) (pendingAt k ?s3) @ [Close k]) (rev [t ..< i]) =
            map (\<lambda>k. map (Unwind k) (pendingAt k s) @ [Close k]) (rev [t ..< i])"
      proof (rule map_cong)
        fix k assume "k \<in> set (rev [t ..< i])"
        then have "k < i" by simp
        then have "pendingAt k ?s3 = pendingAt k s1" using l1 by (simp add: pendingAt_close)
        also have "\<dots> = pendingAt k s" by (simp add: pendingAt_lists g1)
        finally show "map (Unwind k) (pendingAt k ?s3) @ [Close k] =
                      map (Unwind k) (pendingAt k s) @ [Close k]" by simp
      qed simp
      then have rest: "?rest ?s3 = ?rest s" by (rule arg_cong)
      have "popCleanupsLoop (Suc i) t s = popCleanupsLoop i t ?s3"
        using True Inr by (simp add: Let_def mergePop_close [OF l1])
      also have "\<dots> = runPopSteps (?rest ?s3) ?s3" using l3 by (rule Suc.IH)
      also have "\<dots> = runPopSteps (?rest s) ?s3" by (simp only: rest)
      also have "\<dots> = runPopSteps (map (Unwind i) (pendingAt i s) @ [Close i] @ ?rest s) s"
        using Inr by (simp add: runPopSteps_append p popCleanupsGotos_steps [symmetric])
      finally show ?thesis unfolding r by simp
    qed
  qed
qed

lemma runPopSteps_result:
  "length (cleanupScopes s) = i \<Longrightarrow> t \<le> i \<Longrightarrow>
   runPopSteps (concat (map (\<lambda>k. map (Unwind k) (pendingAt k s) @ [Close k])
                            (rev [t ..< i]))) s = Inr s' \<Longrightarrow>
   length (cleanupScopes s') = t \<and>
   topLevelUnresolvedGotos s' =
     topLevelUnresolvedGotos s @ (if t = 0 then pendingAt 0 s else []) \<and>
   (0 < t \<longrightarrow> map unresolvedGotos (cleanupScopes s') =
      take (t - 1) (map unresolvedGotos (cleanupScopes s)) @ [pendingAt (t - 1) s])"
proof (induction i arbitrary: s)
  case 0
  then show ?case by (simp add: pendingAt_def)
next
  case (Suc i)
  show ?case
  proof (cases "t = Suc i")
    case True
    have "map unresolvedGotos (cleanupScopes s) =
          take i (map unresolvedGotos (cleanupScopes s)) @ [pendingAt i s]"
      using Suc.prems(1)
      by (metis pendingAt_lists append_take_drop_id concat.simps(1) concat.simps(2)
          append_Nil2 Cons_nth_drop_Suc drop_all length_map lessI order_refl)
    then show ?thesis using True Suc.prems by simp
  next
    case False
    then have ti: "t \<le> i" using Suc.prems(2) by simp
    then have r: "rev [t ..< Suc i] = i # rev [t ..< i]" by simp
    let ?rest = "\<lambda>s. concat (map (\<lambda>k. map (Unwind k) (pendingAt k s) @ [Close k]) (rev [t ..< i]))"
    have e: "concat (map (\<lambda>k. map (Unwind k) (pendingAt k s) @ [Close k]) (rev [t ..< Suc i])) =
             map (Unwind i) (pendingAt i s) @ ([Close i] @ ?rest s)"
      unfolding r by simp
    from Suc.prems(3) have "runPopSteps (map (Unwind i) (pendingAt i s) @ ([Close i] @ ?rest s)) s = Inr s'"
      by (simp only: e)
    then obtain s1 where
      a: "runPopSteps (map (Unwind i) (pendingAt i s)) s = Inr s1" and
      b: "runPopSteps (?rest s) (closeScope i s1) = Inr s'"
      by (auto simp: runPopSteps_append split: sum.splits)
    have a': "popCleanupsGotos (pendingAt i s) i s = Inr s1"
      using a by (simp add: popCleanupsGotos_steps)
    have l1: "length (cleanupScopes s1) = Suc i"
      using popCleanupsGotos_length [OF a'] Suc.prems by simp
    have g1: "map unresolvedGotos (cleanupScopes s1) = map unresolvedGotos (cleanupScopes s)"
      and t1: "topLevelUnresolvedGotos s1 = topLevelUnresolvedGotos s"
      using popCleanupsGotos_lists [OF a'] by simp_all
    let ?s3 = "closeScope i s1"
    have l3: "length (cleanupScopes ?s3) = i" using l1 by (rule closeScope_length)
    have "map (\<lambda>k. map (Unwind k) (pendingAt k ?s3) @ [Close k]) (rev [t ..< i]) =
          map (\<lambda>k. map (Unwind k) (pendingAt k s) @ [Close k]) (rev [t ..< i])"
    proof (rule map_cong)
      fix k assume "k \<in> set (rev [t ..< i])"
      then have "k < i" by simp
      then have "pendingAt k ?s3 = pendingAt k s1" using l1 by (simp add: pendingAt_close)
      also have "\<dots> = pendingAt k s" by (simp add: pendingAt_lists g1)
      finally show "map (Unwind k) (pendingAt k ?s3) @ [Close k] =
                    map (Unwind k) (pendingAt k s) @ [Close k]" by simp
    qed simp
    then have rest: "?rest ?s3 = ?rest s" by (rule arg_cong)
    have b': "runPopSteps (?rest ?s3) ?s3 = Inr s'" using b by (simp only: rest)
    note ih = Suc.IH [OF l3 ti b']
    show ?thesis
    proof (cases "i = 0")
      case True
      then have t0: "t = 0" using ti by simp
      have "s' = ?s3" using b' True t0 by simp
      moreover have "pendingAt 0 s = unresolvedGotos (cleanupScopes s1 ! 0)"
      proof -
        have "map unresolvedGotos (cleanupScopes s1) = [unresolvedGotos (cleanupScopes s1 ! 0)]"
          using l1 True by (cases "cleanupScopes s1") auto
        then show ?thesis by (simp add: pendingAt_lists g1 [symmetric])
      qed
      ultimately show ?thesis using True t0 t1 by (simp add: closeScope_def)
    next
      case False
      then have i: "0 < i" by simp
      have t3: "topLevelUnresolvedGotos ?s3 = topLevelUnresolvedGotos s"
        using i t1 by (simp add: closeScope_def)
      have p0: "pendingAt 0 ?s3 = pendingAt 0 s"
        using i l1 g1 by (simp add: pendingAt_close) (simp add: pendingAt_lists)
      have g3: "map unresolvedGotos (cleanupScopes ?s3) =
            take (i - 1) (map unresolvedGotos (cleanupScopes s)) @ [pendingAt (i - 1) s]"
        using closeScope_lists [OF l1 i] by (simp add: g1 pendingAt_lists)
      have "0 < t \<longrightarrow> map unresolvedGotos (cleanupScopes s') =
            take (t - 1) (map unresolvedGotos (cleanupScopes s)) @ [pendingAt (t - 1) s]"
      proof
        assume t: "0 < t"
        have pt: "pendingAt (t - 1) ?s3 = pendingAt (t - 1) s"
          using t ti i l1 g1 by (simp add: pendingAt_close) (simp add: pendingAt_lists)
        have "take (t - 1) (map unresolvedGotos (cleanupScopes ?s3)) =
              take (t - 1) (map unresolvedGotos (cleanupScopes s))"
          using t ti i Suc.prems(1) by (simp add: g3)
        then show "map unresolvedGotos (cleanupScopes s') =
            take (t - 1) (map unresolvedGotos (cleanupScopes s)) @ [pendingAt (t - 1) s]"
          using ih t pt by simp
      qed
      then show ?thesis using ih t3 p0 by simp
    qed
  qed
qed

lemma unwindScopesOf_append:
  "unwindScopesOf g (xs @ ys) = unwindScopesOf g xs @ unwindScopesOf g ys"
proof (induction xs)
  case Nil
  then show ?case by simp
next
  case (Cons x xs)
  then show ?case by (cases x) simp_all
qed

lemma unwindScopesOf_map:
  "unwindScopesOf g (map (Unwind i) gs) = replicate (count_list gs g) i"
  by (induction gs) simp_all

lemma unwindScopesOf_concat:
  "unwindScopesOf g (concat xss) = concat (map (unwindScopesOf g) xss)"
  by (induction xss) (simp_all add: unwindScopesOf_append)

lemma count_list_distinct:
  "distinct xs \<Longrightarrow> count_list xs x = (if x \<in> set xs then 1 else 0)"
  by (induction xs) auto

lemma count_pending:
  assumes d: "distinct (concat G)" and j: "j < length G" and g: "g \<in> set (G ! j)"
  shows "count_list (concat (drop k G)) g = (if k \<le> j then 1 else 0)"
proof -
  have split: "concat G = concat (take k G) @ concat (drop k G)"
    by (metis append_take_drop_id concat_append)
  with d have dd: "distinct (concat (drop k G))" and
    disj: "set (concat (take k G)) \<inter> set (concat (drop k G)) = {}"
    by simp_all
  show ?thesis
  proof (cases "k \<le> j")
    case True
    then have "G ! j = drop k G ! (j - k)" using j by simp
    moreover have "j - k < length (drop k G)" using True j by simp
    ultimately have "G ! j \<in> set (drop k G)" by (metis nth_mem)
    then have "g \<in> set (concat (drop k G))" using g by auto
    then show ?thesis using True dd by (simp add: count_list_distinct)
  next
    case False
    then have "G ! j = take k G ! j" by simp
    moreover have "j < length (take k G)" using False j by simp
    ultimately have "G ! j \<in> set (take k G)" by (metis nth_mem)
    then have "g \<in> set (concat (take k G))" using g by auto
    then have "g \<notin> set (concat (drop k G))" using disj by auto
    then show ?thesis using False by simp
  qed
qed

lemma unwindScopesOf_steps:
  assumes "\<And>k. count_list (P k) g = (if k \<le> j then 1 else 0)"
  shows "unwindScopesOf g (concat (map (\<lambda>k. map (Unwind k) (P k) @ [Close k]) ks)) =
         filter (\<lambda>k. k \<le> j) ks"
  by (induction ks) (simp_all add: unwindScopesOf_append unwindScopesOf_map assms)

lemma filter_le_upt:
  assumes "t \<le> j" "j < n"
  shows "filter (\<lambda>k. k \<le> j) [t ..< n] = [t ..< Suc j]"
proof -
  have "t \<le> Suc j" using assms by simp
  from upt_add_eq_append [OF this, of "n - Suc j"]
  have "[t ..< n] = [t ..< Suc j] @ [Suc j ..< n]"
    using assms by simp
  then show ?thesis by (auto simp del: upt_Suc)
qed

lemma unwindScopesOf_popSteps:
  assumes d: "distinct (concat (map unresolvedGotos (cleanupScopes s)))"
    and t: "t \<le> j" and j: "j < length (cleanupScopes s)"
    and g: "g \<in> set (unresolvedGotos (cleanupScopes s ! j))"
  shows "unwindScopesOf g (popSteps t s) = rev [t ..< Suc j]"
proof -
  let ?G = "map unresolvedGotos (cleanupScopes s)"
  let ?n = "length (cleanupScopes s)"
  have c: "count_list (pendingAt k s) g = (if k \<le> j then 1 else 0)" for k
    using count_pending [of ?G j g k] d j g by (simp add: pendingAt_lists)
  have "unwindScopesOf g (popSteps t s) = filter (\<lambda>k. k \<le> j) (rev [t ..< ?n])"
    unfolding popSteps_def using c by (rule unwindScopesOf_steps)
  also have "\<dots> = rev (filter (\<lambda>k. k \<le> j) [t ..< ?n])" by (simp add: rev_filter)
  also have "\<dots> = rev [t ..< Suc j]" using t j by (simp only: filter_le_upt)
  finally show ?thesis .
qed

lemma popCleanupsLoop_none: "i \<le> t \<Longrightarrow> popCleanupsLoop i t s = Inr s"
  by (cases i) simp_all

text \<open>
  C4.  \<open>popCleanups\<close> does nothing when the target cursor is not below the
  number of active scopes.  Otherwise it performs exactly the steps of
  \<open>popSteps\<close>, in that order: for each scope from the innermost down to list
  position \<open>targetScope\<close>, one \<open>Unwind\<close> step for every goto pending at that
  scope (the gotos registered against it followed by those merged into it from
  the scopes inside, in list order), then the \<open>Close\<close> step that appends the
  list of the scope to the end of the list of the next enclosing scope, or of
  the top-level list for the outermost scope, and removes the scope.  When it
  succeeds, \<open>targetScope\<close> scopes are left; the gotos of all popped scopes are
  at the end of the list of the innermost remaining scope, or of the top-level
  list when no scope remains.  Consequently, when the pending gotos are
  pairwise different, a goto registered against scope \<open>j\<close> gets exactly one
  multiplexer call on each of the popped scopes \<open>j\<close>, \<open>j - 1\<close>, \<dots>,
  \<open>targetScope\<close>, in this order, and none on any other scope.
\<close>

theorem popCleanups_steps:
  "(currentCleanupScope s \<le> targetScope \<longrightarrow> popCleanups targetScope s = Inr s) \<and>
   (targetScope < currentCleanupScope s \<longrightarrow>
      popCleanups targetScope s = runPopSteps (popSteps targetScope s) s \<and>
      (\<forall>s'. popCleanups targetScope s = Inr s' \<longrightarrow>
         length (cleanupScopes s') = targetScope \<and>
         topLevelUnresolvedGotos s' =
           topLevelUnresolvedGotos s @ (if targetScope = 0 then pendingAt 0 s else []) \<and>
         (0 < targetScope \<longrightarrow>
            map unresolvedGotos (cleanupScopes s') =
              take (targetScope - 1) (map unresolvedGotos (cleanupScopes s)) @
                [pendingAt (targetScope - 1) s]))) \<and>
   (distinct (concat (map unresolvedGotos (cleanupScopes s))) \<and> targetScope \<le> j \<and>
    j < currentCleanupScope s \<and> g \<in> set (unresolvedGotos (cleanupScopes s ! j)) \<longrightarrow>
      unwindScopesOf g (popSteps targetScope s) = rev [targetScope ..< Suc j])"
proof (intro conjI impI allI)
  assume "currentCleanupScope s \<le> targetScope"
  then show "popCleanups targetScope s = Inr s"
    by (simp add: popCleanups_def popCleanupsLoop_none)
next
  assume lt: "targetScope < currentCleanupScope s"
  have l: "length (cleanupScopes s) = currentCleanupScope s"
    by (simp add: currentCleanupScope_def)
  have "popCleanups targetScope s = popCleanupsLoop (currentCleanupScope s) targetScope s"
    using lt by (simp add: popCleanups_def)
  also have "\<dots> = runPopSteps (popSteps targetScope s) s"
    unfolding popSteps_def l using l by (rule popCleanupsLoop_steps)
  finally show e: "popCleanups targetScope s = runPopSteps (popSteps targetScope s) s" .
  fix s' assume r: "popCleanups targetScope s = Inr s'"
  have "runPopSteps (concat (map (\<lambda>k. map (Unwind k) (pendingAt k s) @ [Close k])
                            (rev [targetScope ..< currentCleanupScope s]))) s = Inr s'"
    using r e by (simp add: popSteps_def l)
  from runPopSteps_result [OF l _ this] lt
  have res: "length (cleanupScopes s') = targetScope \<and>
         topLevelUnresolvedGotos s' =
           topLevelUnresolvedGotos s @ (if targetScope = 0 then pendingAt 0 s else []) \<and>
         (0 < targetScope \<longrightarrow>
            map unresolvedGotos (cleanupScopes s') =
              take (targetScope - 1) (map unresolvedGotos (cleanupScopes s)) @
                [pendingAt (targetScope - 1) s])"
    by simp
  from res show "length (cleanupScopes s') = targetScope" by simp
  from res show "topLevelUnresolvedGotos s' =
           topLevelUnresolvedGotos s @ (if targetScope = 0 then pendingAt 0 s else [])" by simp
  {
    assume "0 < targetScope"
    with res show "map unresolvedGotos (cleanupScopes s') =
              take (targetScope - 1) (map unresolvedGotos (cleanupScopes s)) @
                [pendingAt (targetScope - 1) s]" by simp
  }
next
  assume h: "distinct (concat (map unresolvedGotos (cleanupScopes s))) \<and> targetScope \<le> j \<and>
    j < currentCleanupScope s \<and> g \<in> set (unresolvedGotos (cleanupScopes s ! j))"
  then show "unwindScopesOf g (popSteps targetScope s) = rev [targetScope ..< Suc j]"
    by (intro unwindScopesOf_popSteps) (simp_all add: currentCleanupScope_def)
qed

theorem popCleanups_steps_witness:
  "popCleanups 2 gotoInTwoScopes = Inr gotoInTwoScopes \<and>
   popSteps 0 gotoInTwoScopes =
     [Unwind 1 \<lparr>sourceLoc = 40, sourceBlock = 0, tentativeTarget = 7, targetLabel = 9\<rparr>, Close 1,
      Unwind 0 \<lparr>sourceLoc = 40, sourceBlock = 0, tentativeTarget = 7, targetLabel = 9\<rparr>, Close 0] \<and>
   unwindScopesOf \<lparr>sourceLoc = 40, sourceBlock = 0, tentativeTarget = 7, targetLabel = 9\<rparr>
     (popSteps 0 gotoInTwoScopes) = [1, 0] \<and>
   (\<exists>s'. popCleanups 0 gotoInTwoScopes = Inr s' \<and>
      runPopSteps (popSteps 0 gotoInTwoScopes) gotoInTwoScopes = Inr s' \<and>
      cleanupScopes s' = [] \<and>
      topLevelUnresolvedGotos s' =
        [\<lparr>sourceLoc = 40, sourceBlock = 0, tentativeTarget = 7, targetLabel = 9\<rparr>] \<and>
      code (irs s') 0 = [Br 3] \<and> code (irs s') 4 = [Br 1] \<and> code (irs s') 2 = [Br 7]) \<and>
   (\<exists>s'. popCleanups 1 gotoInTwoScopes = Inr s' \<and>
      map unresolvedGotos (cleanupScopes s') =
        [[\<lparr>sourceLoc = 40, sourceBlock = 0, tentativeTarget = 7, targetLabel = 9\<rparr>]] \<and>
      topLevelUnresolvedGotos s' = [])"
proof -
  let ?g = "\<lparr>sourceLoc = 40, sourceBlock = 0, tentativeTarget = 7, targetLabel = 9\<rparr>"
  have d: "currentCleanupScope gotoInTwoScopes = 2"
    by (simp add: gotoInTwoScopes_def currentCleanupScope_def)
  have p: "pendingAt 0 gotoInTwoScopes = [?g]" "pendingAt 1 gotoInTwoScopes = [?g]"
    by (simp_all add: gotoInTwoScopes_def pendingAt_def CleanupScope_def)
  have st: "popSteps 0 gotoInTwoScopes = [Unwind 1 ?g, Close 1, Unwind 0 ?g, Close 0]"
    using p by (simp add: popSteps_def gotoInTwoScopes_def upt_rec numeral_2_eq_2)
  have h: "distinct (concat (map unresolvedGotos (cleanupScopes gotoInTwoScopes))) \<and> 0 \<le> (1::nat) \<and>
    1 < currentCleanupScope gotoInTwoScopes \<and>
    ?g \<in> set (unresolvedGotos (cleanupScopes gotoInTwoScopes ! 1))"
    by (simp add: gotoInTwoScopes_def currentCleanupScope_def CleanupScope_def)
  have a: "popCleanups 2 gotoInTwoScopes = Inr gotoInTwoScopes"
    using popCleanups_steps [of gotoInTwoScopes 2] by (simp add: d)
  have u: "unwindScopesOf ?g (popSteps 0 gotoInTwoScopes) = [1, 0]"
    using popCleanups_steps [of gotoInTwoScopes 0 1 ?g, THEN conjunct2, THEN conjunct2] h
    by (simp add: upt_rec numeral_2_eq_2)
  have ev: "\<exists>s'. popCleanups 0 gotoInTwoScopes = Inr s' \<and>
      code (irs s') 0 = [Br 3] \<and> code (irs s') 4 = [Br 1] \<and> code (irs s') 2 = [Br 7] \<and>
      cleanupScopes s' = []"
    by (simp add: gotoInTwoScopes_def ir_defs mux_defs stack_defs Let_def numeral_2_eq_2)
  then obtain s' where s': "popCleanups 0 gotoInTwoScopes = Inr s'"
      "code (irs s') 0 = [Br 3]" "code (irs s') 4 = [Br 1]" "code (irs s') 2 = [Br 7]"
      "cleanupScopes s' = []"
    by blast
  from popCleanups_steps [of gotoInTwoScopes 0, THEN conjunct2, THEN conjunct1] d s'(1)
  have "runPopSteps (popSteps 0 gotoInTwoScopes) gotoInTwoScopes = Inr s'"
    and "topLevelUnresolvedGotos s' = topLevelUnresolvedGotos gotoInTwoScopes @ pendingAt 0 gotoInTwoScopes"
    by simp_all
  then have "runPopSteps (popSteps 0 gotoInTwoScopes) gotoInTwoScopes = Inr s'"
    and "topLevelUnresolvedGotos s' = [?g]"
    by (simp_all add: p) (simp add: gotoInTwoScopes_def)
  with s' have "\<exists>s'. popCleanups 0 gotoInTwoScopes = Inr s' \<and>
      runPopSteps (popSteps 0 gotoInTwoScopes) gotoInTwoScopes = Inr s' \<and>
      cleanupScopes s' = [] \<and> topLevelUnresolvedGotos s' = [?g] \<and>
      code (irs s') 0 = [Br 3] \<and> code (irs s') 4 = [Br 1] \<and> code (irs s') 2 = [Br 7]"
    by (intro exI [of _ s'] conjI)
  moreover have "\<exists>s'. popCleanups 1 gotoInTwoScopes = Inr s' \<and>
      map unresolvedGotos (cleanupScopes s') = [[?g]] \<and> topLevelUnresolvedGotos s' = []"
  proof -
    have "\<exists>s'. popCleanups 1 gotoInTwoScopes = Inr s'"
      by (simp add: gotoInTwoScopes_def ir_defs mux_defs stack_defs Let_def numeral_2_eq_2)
    then obtain s1 where s1: "popCleanups 1 gotoInTwoScopes = Inr s1" ..
    from popCleanups_steps [of gotoInTwoScopes 1, THEN conjunct2, THEN conjunct1] d s1
    have "map unresolvedGotos (cleanupScopes s1) =
            take 0 (map unresolvedGotos (cleanupScopes gotoInTwoScopes)) @
              [pendingAt 0 gotoInTwoScopes]"
      and "topLevelUnresolvedGotos s1 = topLevelUnresolvedGotos gotoInTwoScopes"
      by simp_all
    then have "map unresolvedGotos (cleanupScopes s1) = [[?g]]" "topLevelUnresolvedGotos s1 = []"
      by (simp_all add: p) (simp add: gotoInTwoScopes_def)
    with s1 show ?thesis by (intro exI [of _ s1] conjI)
  qed
  ultimately show ?thesis using a st u by simp
qed

subsection \<open>Label definition after a forward goto\<close>

lemma currentUnresolvedGotos_lists:
  "currentUnresolvedGotos s =
     (if map unresolvedGotos (cleanupScopes s) = [] then topLevelUnresolvedGotos s
      else last (map unresolvedGotos (cleanupScopes s)))"
  by (simp add: currentUnresolvedGotos_def last_map)

lemma runCleanupsLoop_lists:
  "runCleanupsLoop i t cw s = Inr s' \<Longrightarrow>
   map unresolvedGotos (cleanupScopes s') = map unresolvedGotos (cleanupScopes s) \<and>
   topLevelUnresolvedGotos s' = topLevelUnresolvedGotos s"
proof (induction i arbitrary: s)
  case 0
  then show ?case by simp
next
  case (Suc i)
  show ?case
  proof (cases "Suc i > t")
    case False
    with Suc.prems show ?thesis by simp
  next
    case True
    let ?nb = "if i > t then beginBlock (cleanupScopes s ! (i - 1)) else cw"
    from Suc.prems True obtain ir' sc' where
      e: "executeCleanup (irs s) (cleanupScopes s ! i) (scopebb (irs s)) ?nb = Inr (ir', sc')" and
      r: "runCleanupsLoop i t cw (s\<lparr>irs := ir', cleanupScopes := (cleanupScopes s)[i := sc']\<rparr>) =
            Inr s'"
      by (auto simp: Let_def split: sum.splits)
    have u: "unresolvedGotos sc' = unresolvedGotos (cleanupScopes s ! i)"
      using e by (rule executeCleanup_gotos)
    have "map unresolvedGotos ((cleanupScopes s)[i := sc']) = map unresolvedGotos (cleanupScopes s)"
    proof (cases "i < length (cleanupScopes s)")
      case True
      then show ?thesis by (simp add: map_update u list_update_same_conv)
    next
      case False
      then have "length (cleanupScopes s) \<le> i" by simp
      then show ?thesis by (simp add: list_update_beyond)
    qed
    then show ?thesis using Suc.IH [OF r] by simp
  qed
qed

lemma runCleanups_current:
  assumes "runCleanups t cw s = Inr s'"
  shows "currentUnresolvedGotos s' = currentUnresolvedGotos s"
proof (cases "t = currentCleanupScope s")
  case True
  with assms show ?thesis
    by (auto simp: runCleanups_def currentUnresolvedGotos_def split: if_splits)
next
  case False
  let ?s1 = "s\<lparr>irs := appendInst (scopebb (irs s))
                      (Br (beginBlock (last (cleanupScopes s)))) (irs s)\<rparr>"
  from assms False have "runCleanupsLoop (currentCleanupScope ?s1) t cw ?s1 = Inr s'"
    by (auto simp: runCleanups_def Let_def split: if_splits)
  from runCleanupsLoop_lists [OF this] show ?thesis
    by (simp add: currentUnresolvedGotos_lists)
qed

lemma jumpToStatementLoop_current:
  "jumpToStatementLoop ts st s = Inr s' \<Longrightarrow>
   currentUnresolvedGotos s' = currentUnresolvedGotos s"
  by (induction ts) (auto split: if_splits dest: runCleanups_current)

lemma applyOp_keeps_goto:
  assumes a: "applyOp x s = Inr s'" and k: "keepsScopes x s" and n: "\<not> definesLabel l x"
    and g: "g \<in> set (currentUnresolvedGotos s)" and tl: "targetLabel g = l"
  shows "g \<in> set (currentUnresolvedGotos s')"
proof (cases x)
  case (OpPushCleanup b e)
  with k show ?thesis by simp
next
  case (OpRunCleanups m b)
  with a g show ?thesis by (auto dest: runCleanups_current)
next
  case (OpRunAllCleanups b)
  with a g show ?thesis by (auto simp: runAllCleanups_def dest: runCleanups_current)
next
  case (OpPopCleanups m)
  with k have "popCleanups m s = Inr s"
    by (simp add: popCleanups_def popCleanupsLoop_none)
  with a g OpPopCleanups show ?thesis by simp
next
  case (OpPushLoopTarget st c b)
  with a g show ?thesis by (auto simp: pushLoopTarget_def currentUnresolvedGotos_def)
next
  case OpPopLoopTarget
  with a g show ?thesis
    by (auto simp: popLoopTarget_def currentUnresolvedGotos_def split: if_splits)
next
  case (OpPushBreakTarget st b)
  with a g show ?thesis by (auto simp: pushBreakTarget_def currentUnresolvedGotos_def)
next
  case OpPopBreakTarget
  with a g show ?thesis
    by (auto simp: popBreakTarget_def currentUnresolvedGotos_def split: if_splits)
next
  case (OpAddLabelTarget l' b)
  with n have "l' \<noteq> l" by simp
  with a g tl OpAddLabelTarget show ?thesis by (auto simp: addLabelTarget_current)
next
  case (OpJumpToLabel lc' l')
  show ?thesis
  proof (cases "labelTargets s l'")
    case None
    from jumpToLabel_unknown [OF None, of lc'] a OpJumpToLabel g show ?thesis by auto
  next
    case (Some t)
    with a OpJumpToLabel have "runCleanups (cleanupScope t) (targetBlock t) s = Inr s'"
      by (simp add: jumpToLabel_def)
    with g show ?thesis by (auto dest: runCleanups_current)
  qed
next
  case (OpBreakToStatement st)
  with a g show ?thesis by (auto simp: jumpToStatement_def dest: jumpToStatementLoop_current)
next
  case (OpContinueToStatement st)
  with a g show ?thesis by (auto simp: jumpToStatement_def dest: jumpToStatementLoop_current)
next
  case OpBreakToClosest
  with a g show ?thesis
    by (auto simp: jumpToClosest_def split: if_splits dest: runCleanups_current)
next
  case OpContinueToClosest
  with a g show ?thesis
    by (auto simp: jumpToClosest_def split: if_splits dest: runCleanups_current)
next
  case (OpEmit f)
  with a g show ?thesis by (auto simp: currentUnresolvedGotos_def)
qed

lemma applyOps_keeps_goto:
  "applyOps xs s = Inr s' \<Longrightarrow> runKeepsScopes xs s \<Longrightarrow> \<forall>x \<in> set xs. \<not> definesLabel l x \<Longrightarrow>
   g \<in> set (currentUnresolvedGotos s) \<Longrightarrow> targetLabel g = l \<Longrightarrow>
   g \<in> set (currentUnresolvedGotos s')"
proof (induction xs arbitrary: s)
  case Nil
  then show ?case by simp
next
  case (Cons x xs)
  from Cons.prems(1) obtain s1 where a: "applyOp x s = Inr s1" and b: "applyOps xs s1 = Inr s'"
    by (auto split: sum.splits)
  have k: "keepsScopes x s" and r: "runKeepsScopes xs s1" using Cons.prems(2) a by simp_all
  have "g \<in> set (currentUnresolvedGotos s1)"
    using applyOp_keeps_goto [OF a k _ Cons.prems(4) Cons.prems(5)] Cons.prems(3) by simp
  then show ?case using Cons.IH [OF b r] Cons.prems(3,5) by simp
qed

lemma goto_then_label:
  assumes u: "labelTargets s l = None" and j: "jumpToLabel lc l s = Inr s1"
    and o: "applyOps ops s1 = Inr s2" and k: "runKeepsScopes ops s1"
    and n: "\<forall>x \<in> set ops. \<not> definesLabel l x"
    and nb: "b \<notin> placeholdersOf l (currentUnresolvedGotos s2)"
  shows "last (code (irs s1) (scopebb (irs s))) = Br (nextFresh (irs s)) \<and>
     nextFresh (irs s) \<in> set (funcBlocks (irs s1)) \<and>
     nextFresh (irs s) \<in> placeholdersOf l (currentUnresolvedGotos s2) \<and>
     nextFresh (irs s) \<notin> set (funcBlocks (irs (addLabelTarget l b s2))) \<and>
     code (irs (addLabelTarget l b s2)) (nextFresh (irs s)) = [] \<and>
     (\<forall>blk. \<forall>i \<in> set (code (irs (addLabelTarget l b s2)) blk). nextFresh (irs s) \<notin> instUses i) \<and>
     (\<forall>blk. blk \<notin> placeholdersOf l (currentUnresolvedGotos s2) \<longrightarrow>
        code (irs (addLabelTarget l b s2)) blk =
          map (redirectInst (placeholdersOf l (currentUnresolvedGotos s2)) b) (code (irs s2) blk)) \<and>
     (\<forall>g \<in> set (currentUnresolvedGotos (addLabelTarget l b s2)). targetLabel g \<noteq> l)"
proof -
  let ?p = "nextFresh (irs s)"
  let ?g = "\<lparr>sourceLoc = lc, sourceBlock = scopebb (irs s), tentativeTarget = ?p, targetLabel = l\<rparr>"
  let ?P = "placeholdersOf l (currentUnresolvedGotos s2)"
  from jumpToLabel_unknown [OF u, of lc] j have
    cur: "currentUnresolvedGotos s1 = currentUnresolvedGotos s @ [?g]" and
    fb: "funcBlocks (irs s1) = funcBlocks (irs s) @ [?p]" and
    cd: "code (irs s1) = (code (irs s))(?p := [],
        scopebb (irs s) := ((code (irs s))(?p := [])) (scopebb (irs s)) @ [Br ?p])"
    by auto
  have 1: "last (code (irs s1) (scopebb (irs s))) = Br ?p" by (simp add: cd)
  have 2: "?p \<in> set (funcBlocks (irs s1))" by (simp add: fb)
  have "?g \<in> set (currentUnresolvedGotos s1)" by (simp add: cur)
  from applyOps_keeps_goto [OF o k n this] have "?g \<in> set (currentUnresolvedGotos s2)" by simp
  then have 3: "?p \<in> ?P" by (force simp: placeholdersOf_def)
  have 4: "?p \<notin> set (funcBlocks (irs (addLabelTarget l b s2)))"
    using 3 by (simp add: addLabelTarget_irs resolveGotos_funcBlocks)
  have 5: "code (irs (addLabelTarget l b s2)) ?p = []"
    using 3 by (simp add: addLabelTarget_code [OF nb])
  have 6: "\<forall>blk. \<forall>i \<in> set (code (irs (addLabelTarget l b s2)) blk). ?p \<notin> instUses i"
    using addLabelTarget_no_uses [OF nb] 3 by blast
  have 7: "\<forall>blk. blk \<notin> ?P \<longrightarrow>
        code (irs (addLabelTarget l b s2)) blk = map (redirectInst ?P b) (code (irs s2) blk)"
    by (simp add: addLabelTarget_code [OF nb])
  have 8: "\<forall>g \<in> set (currentUnresolvedGotos (addLabelTarget l b s2)). targetLabel g \<noteq> l"
    by (simp add: addLabelTarget_current)
  from 1 2 3 4 5 6 7 8 show ?thesis by (intro conjI)
qed

lemma addLabelTarget_basic:
  "labelTargets (addLabelTarget l b s) =
     (labelTargets s)(l \<mapsto> \<lparr>targetBlock = b, cleanupScope = currentCleanupScope s,
                              targetStatement = 0\<rparr>) \<and>
   currentUnresolvedGotos (addLabelTarget l b s) =
     filter (\<lambda>g. targetLabel g \<noteq> l) (currentUnresolvedGotos s) \<and>
   (cleanupScopes s = [] \<longrightarrow> cleanupScopes (addLabelTarget l b s) = []) \<and>
   (cleanupScopes s \<noteq> [] \<longrightarrow>
      topLevelUnresolvedGotos (addLabelTarget l b s) = topLevelUnresolvedGotos s \<and>
      cleanupScopes (addLabelTarget l b s) =
        butlast (cleanupScopes s) @
          [(last (cleanupScopes s))\<lparr>unresolvedGotos :=
             filter (\<lambda>g. targetLabel g \<noteq> l) (unresolvedGotos (last (cleanupScopes s)))\<rparr>]) \<and>
   funcBlocks (irs (addLabelTarget l b s)) =
     filter (\<lambda>x. x \<notin> placeholdersOf l (currentUnresolvedGotos s)) (funcBlocks (irs s)) \<and>
   (b \<notin> placeholdersOf l (currentUnresolvedGotos s) \<longrightarrow>
      (\<forall>blk. code (irs (addLabelTarget l b s)) blk =
         (if blk \<in> placeholdersOf l (currentUnresolvedGotos s) then []
          else map (redirectInst (placeholdersOf l (currentUnresolvedGotos s)) b)
                 (code (irs s) blk))) \<and>
      (\<forall>blk. \<forall>i \<in> set (code (irs (addLabelTarget l b s)) blk).
         instUses i \<inter> placeholdersOf l (currentUnresolvedGotos s) = {})) \<and>
   (labelTargets s l = None \<and>
    b \<notin> insert (nextFresh (irs s)) (placeholdersOf l (currentUnresolvedGotos s)) \<and>
    scopebb (irs s) \<notin> insert (nextFresh (irs s)) (placeholdersOf l (currentUnresolvedGotos s)) \<longrightarrow>
      (\<exists>s1. jumpToLabel lc l s = Inr s1 \<and>
         nextFresh (irs s) \<notin> set (funcBlocks (irs (addLabelTarget l b s1))) \<and>
         (\<forall>blk. \<forall>i \<in> set (code (irs (addLabelTarget l b s1)) blk).
            nextFresh (irs s) \<notin> instUses i) \<and>
         code (irs (addLabelTarget l b s1)) (scopebb (irs s)) =
           map (redirectInst
                  (insert (nextFresh (irs s)) (placeholdersOf l (currentUnresolvedGotos s))) b)
             (code (irs s) (scopebb (irs s))) @ [Br b] \<and>
         code (irs (addLabelTarget l b s1)) (nextFresh (irs s)) = [] \<and>
         (\<forall>g \<in> set (currentUnresolvedGotos (addLabelTarget l b s1)). targetLabel g \<noteq> l)))"
proof (intro conjI impI)
  assume h: "labelTargets s l = None \<and>
    b \<notin> insert (nextFresh (irs s)) (placeholdersOf l (currentUnresolvedGotos s)) \<and>
    scopebb (irs s) \<notin> insert (nextFresh (irs s)) (placeholdersOf l (currentUnresolvedGotos s))"
  let ?p = "nextFresh (irs s)"
  let ?P = "placeholdersOf l (currentUnresolvedGotos s)"
  from h jumpToLabel_unknown [of s l lc] obtain s1 where
    j: "jumpToLabel lc l s = Inr s1" and
    cur: "currentUnresolvedGotos s1 = currentUnresolvedGotos s @
       [\<lparr>sourceLoc = lc, sourceBlock = scopebb (irs s), tentativeTarget = ?p, targetLabel = l\<rparr>]" and
    fb: "funcBlocks (irs s1) = funcBlocks (irs s) @ [?p]" and
    cd: "code (irs s1) = (code (irs s))(?p := [],
        scopebb (irs s) := ((code (irs s))(?p := [])) (scopebb (irs s)) @ [Br ?p])"
    by blast
  have P1: "placeholdersOf l (currentUnresolvedGotos s1) = insert ?p ?P"
    by (simp add: cur placeholdersOf_def)
  have nb: "b \<notin> placeholdersOf l (currentUnresolvedGotos s1)" using h by (simp add: P1)
  have a: "?p \<notin> set (funcBlocks (irs (addLabelTarget l b s1)))"
    by (simp add: addLabelTarget_irs resolveGotos_funcBlocks P1)
  have u: "\<forall>blk. \<forall>i \<in> set (code (irs (addLabelTarget l b s1)) blk). ?p \<notin> instUses i"
    using addLabelTarget_no_uses [OF nb] by (auto simp: P1)
  have sc: "scopebb (irs s) \<noteq> ?p" "scopebb (irs s) \<notin> ?P" using h by auto
  have c: "code (irs (addLabelTarget l b s1)) (scopebb (irs s)) =
           map (redirectInst (insert ?p ?P) b) (code (irs s) (scopebb (irs s))) @ [Br b]"
    using sc by (simp add: addLabelTarget_code [OF nb] P1 cd)
  have e: "code (irs (addLabelTarget l b s1)) ?p = []"
    by (simp add: addLabelTarget_code [OF nb] P1)
  have r: "\<forall>g \<in> set (currentUnresolvedGotos (addLabelTarget l b s1)). targetLabel g \<noteq> l"
    by (simp add: addLabelTarget_current)
  show "\<exists>s1. jumpToLabel lc l s = Inr s1 \<and>
         nextFresh (irs s) \<notin> set (funcBlocks (irs (addLabelTarget l b s1))) \<and>
         (\<forall>blk. \<forall>i \<in> set (code (irs (addLabelTarget l b s1)) blk).
            nextFresh (irs s) \<notin> instUses i) \<and>
         code (irs (addLabelTarget l b s1)) (scopebb (irs s)) =
           map (redirectInst
                  (insert (nextFresh (irs s)) (placeholdersOf l (currentUnresolvedGotos s))) b)
             (code (irs s) (scopebb (irs s))) @ [Br b] \<and>
         code (irs (addLabelTarget l b s1)) (nextFresh (irs s)) = [] \<and>
         (\<forall>g \<in> set (currentUnresolvedGotos (addLabelTarget l b s1)). targetLabel g \<noteq> l)"
    using j a u c e r by blast
next
  assume nb: "b \<notin> placeholdersOf l (currentUnresolvedGotos s)"
  show "\<forall>blk. \<forall>i \<in> set (code (irs (addLabelTarget l b s)) blk).
         instUses i \<inter> placeholdersOf l (currentUnresolvedGotos s) = {}"
    using addLabelTarget_no_uses [OF nb] by blast
qed (simp_all add: addLabelTarget_labels addLabelTarget_current addLabelTarget_scopes
       addLabelTarget_top addLabelTarget_irs resolveGotos_funcBlocks resolveGotos_code)

text \<open>
  C5.  \<open>addLabelTarget\<close> binds the label to the block and the current cleanup
  cursor.  It scans the list of the innermost scope only (the top-level list
  when no scope is active): the entries awaiting this label are removed from
  it and the others stay, in order; every other list is unchanged.  The
  placeholder of each removed entry is removed from the function, left without
  instructions, and every block operand that was one of these placeholders is
  now the real block, so no instruction uses a placeholder any more (the real
  block is not itself one of the placeholders).  In particular, when
  \<open>jumpToLabel\<close> to an undefined label is followed at once by
  \<open>addLabelTarget\<close> for that label, the placeholder just created is gone from
  the function and unused, the branch that ended the current block goes to the
  real block, and no entry awaiting the label is left in the list.  The same
  holds when other operations come between the two: after \<open>jumpToLabel\<close> to
  an undefined label, which ends the current block with the branch to the new
  placeholder, and any run of operations that keeps the cleanup scopes (no
  scope is pushed or popped) and does not define the label (jumps, loop and
  switch targets, other gotos and labels, code emitted in between), the
  placeholder is still awaited in the current list; \<open>addLabelTarget\<close> for the
  label then removes it from the function, leaves it without instructions,
  makes every block operand that was the placeholder the real block, so that
  no instruction uses it, and leaves no entry awaiting the label.
\<close>

theorem addLabelTarget_resolves:
  "(labelTargets (addLabelTarget l b s) =
     (labelTargets s)(l \<mapsto> \<lparr>targetBlock = b, cleanupScope = currentCleanupScope s,
                              targetStatement = 0\<rparr>) \<and>
   currentUnresolvedGotos (addLabelTarget l b s) =
     filter (\<lambda>g. targetLabel g \<noteq> l) (currentUnresolvedGotos s) \<and>
   (cleanupScopes s = [] \<longrightarrow> cleanupScopes (addLabelTarget l b s) = []) \<and>
   (cleanupScopes s \<noteq> [] \<longrightarrow>
      topLevelUnresolvedGotos (addLabelTarget l b s) = topLevelUnresolvedGotos s \<and>
      cleanupScopes (addLabelTarget l b s) =
        butlast (cleanupScopes s) @
          [(last (cleanupScopes s))\<lparr>unresolvedGotos :=
             filter (\<lambda>g. targetLabel g \<noteq> l) (unresolvedGotos (last (cleanupScopes s)))\<rparr>]) \<and>
   funcBlocks (irs (addLabelTarget l b s)) =
     filter (\<lambda>x. x \<notin> placeholdersOf l (currentUnresolvedGotos s)) (funcBlocks (irs s)) \<and>
   (b \<notin> placeholdersOf l (currentUnresolvedGotos s) \<longrightarrow>
      (\<forall>blk. code (irs (addLabelTarget l b s)) blk =
         (if blk \<in> placeholdersOf l (currentUnresolvedGotos s) then []
          else map (redirectInst (placeholdersOf l (currentUnresolvedGotos s)) b)
                 (code (irs s) blk))) \<and>
      (\<forall>blk. \<forall>i \<in> set (code (irs (addLabelTarget l b s)) blk).
         instUses i \<inter> placeholdersOf l (currentUnresolvedGotos s) = {})) \<and>
   (labelTargets s l = None \<and>
    b \<notin> insert (nextFresh (irs s)) (placeholdersOf l (currentUnresolvedGotos s)) \<and>
    scopebb (irs s) \<notin> insert (nextFresh (irs s)) (placeholdersOf l (currentUnresolvedGotos s)) \<longrightarrow>
      (\<exists>s1. jumpToLabel lc l s = Inr s1 \<and>
         nextFresh (irs s) \<notin> set (funcBlocks (irs (addLabelTarget l b s1))) \<and>
         (\<forall>blk. \<forall>i \<in> set (code (irs (addLabelTarget l b s1)) blk).
            nextFresh (irs s) \<notin> instUses i) \<and>
         code (irs (addLabelTarget l b s1)) (scopebb (irs s)) =
           map (redirectInst
                  (insert (nextFresh (irs s)) (placeholdersOf l (currentUnresolvedGotos s))) b)
             (code (irs s) (scopebb (irs s))) @ [Br b] \<and>
         code (irs (addLabelTarget l b s1)) (nextFresh (irs s)) = [] \<and>
         (\<forall>g \<in> set (currentUnresolvedGotos (addLabelTarget l b s1)). targetLabel g \<noteq> l)))) \<and>
   (labelTargets s l = None \<and> jumpToLabel lc l s = Inr s1 \<and> applyOps ops s1 = Inr s2 \<and>
    runKeepsScopes ops s1 \<and> (\<forall>x \<in> set ops. \<not> definesLabel l x) \<and>
    b \<notin> placeholdersOf l (currentUnresolvedGotos s2) \<longrightarrow>
      last (code (irs s1) (scopebb (irs s))) = Br (nextFresh (irs s)) \<and>
      nextFresh (irs s) \<in> set (funcBlocks (irs s1)) \<and>
      nextFresh (irs s) \<in> placeholdersOf l (currentUnresolvedGotos s2) \<and>
      nextFresh (irs s) \<notin> set (funcBlocks (irs (addLabelTarget l b s2))) \<and>
      code (irs (addLabelTarget l b s2)) (nextFresh (irs s)) = [] \<and>
      (\<forall>blk. \<forall>i \<in> set (code (irs (addLabelTarget l b s2)) blk).
         nextFresh (irs s) \<notin> instUses i) \<and>
      (\<forall>blk. blk \<notin> placeholdersOf l (currentUnresolvedGotos s2) \<longrightarrow>
         code (irs (addLabelTarget l b s2)) blk =
           map (redirectInst (placeholdersOf l (currentUnresolvedGotos s2)) b)
             (code (irs s2) blk)) \<and>
      (\<forall>g \<in> set (currentUnresolvedGotos (addLabelTarget l b s2)). targetLabel g \<noteq> l))"
proof (rule conjI)
  show "labelTargets (addLabelTarget l b s) =
     (labelTargets s)(l \<mapsto> \<lparr>targetBlock = b, cleanupScope = currentCleanupScope s,
                              targetStatement = 0\<rparr>) \<and>
   currentUnresolvedGotos (addLabelTarget l b s) =
     filter (\<lambda>g. targetLabel g \<noteq> l) (currentUnresolvedGotos s) \<and>
   (cleanupScopes s = [] \<longrightarrow> cleanupScopes (addLabelTarget l b s) = []) \<and>
   (cleanupScopes s \<noteq> [] \<longrightarrow>
      topLevelUnresolvedGotos (addLabelTarget l b s) = topLevelUnresolvedGotos s \<and>
      cleanupScopes (addLabelTarget l b s) =
        butlast (cleanupScopes s) @
          [(last (cleanupScopes s))\<lparr>unresolvedGotos :=
             filter (\<lambda>g. targetLabel g \<noteq> l) (unresolvedGotos (last (cleanupScopes s)))\<rparr>]) \<and>
   funcBlocks (irs (addLabelTarget l b s)) =
     filter (\<lambda>x. x \<notin> placeholdersOf l (currentUnresolvedGotos s)) (funcBlocks (irs s)) \<and>
   (b \<notin> placeholdersOf l (currentUnresolvedGotos s) \<longrightarrow>
      (\<forall>blk. code (irs (addLabelTarget l b s)) blk =
         (if blk \<in> placeholdersOf l (currentUnresolvedGotos s) then []
          else map (redirectInst (placeholdersOf l (currentUnresolvedGotos s)) b)
                 (code (irs s) blk))) \<and>
      (\<forall>blk. \<forall>i \<in> set (code (irs (addLabelTarget l b s)) blk).
         instUses i \<inter> placeholdersOf l (currentUnresolvedGotos s) = {})) \<and>
   (labelTargets s l = None \<and>
    b \<notin> insert (nextFresh (irs s)) (placeholdersOf l (currentUnresolvedGotos s)) \<and>
    scopebb (irs s) \<notin> insert (nextFresh (irs s)) (placeholdersOf l (currentUnresolvedGotos s)) \<longrightarrow>
      (\<exists>s1. jumpToLabel lc l s = Inr s1 \<and>
         nextFresh (irs s) \<notin> set (funcBlocks (irs (addLabelTarget l b s1))) \<and>
         (\<forall>blk. \<forall>i \<in> set (code (irs (addLabelTarget l b s1)) blk).
            nextFresh (irs s) \<notin> instUses i) \<and>
         code (irs (addLabelTarget l b s1)) (scopebb (irs s)) =
           map (redirectInst
                  (insert (nextFresh (irs s)) (placeholdersOf l (currentUnresolvedGotos s))) b)
             (code (irs s) (scopebb (irs s))) @ [Br b] \<and>
         code (irs (addLabelTarget l b s1)) (nextFresh (irs s)) = [] \<and>
         (\<forall>g \<in> set (currentUnresolvedGotos (addLabelTarget l b s1)). targetLabel g \<noteq> l)))"
    by (rule addLabelTarget_basic)
next
  show "(labelTargets s l = None \<and> jumpToLabel lc l s = Inr s1 \<and> applyOps ops s1 = Inr s2 \<and>
      runKeepsScopes ops s1 \<and> (\<forall>x \<in> set ops. \<not> definesLabel l x) \<and>
      b \<notin> placeholdersOf l (currentUnresolvedGotos s2) \<longrightarrow>
        last (code (irs s1) (scopebb (irs s))) = Br (nextFresh (irs s)) \<and>
        nextFresh (irs s) \<in> set (funcBlocks (irs s1)) \<and>
        nextFresh (irs s) \<in> placeholdersOf l (currentUnresolvedGotos s2) \<and>
        nextFresh (irs s) \<notin> set (funcBlocks (irs (addLabelTarget l b s2))) \<and>
        code (irs (addLabelTarget l b s2)) (nextFresh (irs s)) = [] \<and>
        (\<forall>blk. \<forall>i \<in> set (code (irs (addLabelTarget l b s2)) blk).
           nextFresh (irs s) \<notin> instUses i) \<and>
        (\<forall>blk. blk \<notin> placeholdersOf l (currentUnresolvedGotos s2) \<longrightarrow>
           code (irs (addLabelTarget l b s2)) blk =
             map (redirectInst (placeholdersOf l (currentUnresolvedGotos s2)) b)
               (code (irs s2) blk)) \<and>
        (\<forall>g \<in> set (currentUnresolvedGotos (addLabelTarget l b s2)). targetLabel g \<noteq> l))"
    by (intro impI, elim conjE, rule goto_then_label)
qed

theorem addLabelTarget_resolves_witness:
  "code (irs (addLabelTarget 4 9 pendingGotosExample)) 1 = [Other 0, Br 9] \<and>
   code (irs (addLabelTarget 4 9 pendingGotosExample)) 2 = [CondBr 7 9] \<and>
   funcBlocks (irs (addLabelTarget 4 9 pendingGotosExample)) = [1, 2, 7, 9] \<and>
   currentUnresolvedGotos (addLabelTarget 4 9 pendingGotosExample) =
     [\<lparr>sourceLoc = 31, sourceBlock = 2, tentativeTarget = 7, targetLabel = 6\<rparr>] \<and>
   (\<exists>s1. jumpToLabel 32 8 pendingGotosExample = Inr s1 \<and>
      10 \<in> set (funcBlocks (irs s1)) \<and> code (irs s1) 9 = [Br 10] \<and>
      10 \<notin> set (funcBlocks (irs (addLabelTarget 8 2 s1))) \<and>
      code (irs (addLabelTarget 8 2 s1)) 9 = [Br 2] \<and>
      code (irs (addLabelTarget 8 2 s1)) 10 = []) \<and>
   map unresolvedGotos (cleanupScopes (addLabelTarget 9 5 gotoInTwoScopes)) = [[], []] \<and>
   topLevelUnresolvedGotos (addLabelTarget 9 5 gotoInTwoScopes) = [] \<and>
   code (irs (addLabelTarget 9 5 gotoInTwoScopes)) 0 = [Br 5] \<and>
   (\<exists>s1 s2. jumpToLabel 40 9 twoScopesExample = Inr s1 \<and>
      applyOps [OpPushLoopTarget 3 5 6, OpEmit (\<lambda>ir. ir\<lparr>scopebb := 5\<rparr>), OpJumpToLabel 41 8,
           OpEmit (\<lambda>ir. ir\<lparr>scopebb := 1\<rparr>), OpBreakToClosest, OpPopLoopTarget,
           OpAddLabelTarget 10 2, OpPopCleanups 2] s1 = Inr s2 \<and>
      code (irs s2) 0 = [Br 7] \<and> code (irs s2) 1 = [Br 6] \<and> code (irs s2) 5 = [Br 8] \<and>
      7 \<in> set (funcBlocks (irs s2)) \<and>
      7 \<notin> set (funcBlocks (irs (addLabelTarget 9 4 s2))) \<and>
      code (irs (addLabelTarget 9 4 s2)) 0 = [Br 4] \<and>
      code (irs (addLabelTarget 9 4 s2)) 5 = [Br 8] \<and>
      code (irs (addLabelTarget 9 4 s2)) 7 = [] \<and>
      map targetLabel (currentUnresolvedGotos (addLabelTarget 9 4 s2)) = [8])"
proof -
  have c: "currentUnresolvedGotos pendingGotosExample =
      [\<lparr>sourceLoc = 30, sourceBlock = 1, tentativeTarget = 5, targetLabel = 4\<rparr>,
       \<lparr>sourceLoc = 31, sourceBlock = 2, tentativeTarget = 7, targetLabel = 6\<rparr>]"
    by (simp add: pendingGotosExample_def currentUnresolvedGotos_def newScopeStack_def)
  have P: "placeholdersOf 4 (currentUnresolvedGotos pendingGotosExample) = {5}"
     "placeholdersOf 8 (currentUnresolvedGotos pendingGotosExample) = {}"
    by (simp_all add: c placeholdersOf_def)
  have f: "irs pendingGotosExample = \<lparr>code = (\<lambda>b. [])(1 := [Other 0, Br 5], 2 := [CondBr 7 5]),
         funcBlocks = [1, 2, 5, 7, 9], nextFresh = 10, allocas = [], scopebb = 9\<rparr>"
     "labelTargets pendingGotosExample = Map.empty"
    by (simp_all add: pendingGotosExample_def newScopeStack_def)
  note w1 = addLabelTarget_resolves [of 4 9 pendingGotosExample 0, THEN conjunct1, unfolded P f]
  note w2 = addLabelTarget_resolves [of 8 2 pendingGotosExample 32, THEN conjunct1, unfolded P f]
  from w1 have a: "code (irs (addLabelTarget 4 9 pendingGotosExample)) 1 = [Other 0, Br 9]"
    "code (irs (addLabelTarget 4 9 pendingGotosExample)) 2 = [CondBr 7 9]"
    "funcBlocks (irs (addLabelTarget 4 9 pendingGotosExample)) = [1, 2, 7, 9]"
    by simp_all
  from w1 have b: "currentUnresolvedGotos (addLabelTarget 4 9 pendingGotosExample) =
     [\<lparr>sourceLoc = 31, sourceBlock = 2, tentativeTarget = 7, targetLabel = 6\<rparr>]"
    by (simp add: c)
  from w2 obtain s1 where j: "jumpToLabel 32 8 pendingGotosExample = Inr s1" and
      r: "10 \<notin> set (funcBlocks (irs (addLabelTarget 8 2 s1)))"
         "code (irs (addLabelTarget 8 2 s1)) 9 = [Br 2]"
         "code (irs (addLabelTarget 8 2 s1)) 10 = []"
    by simp blast
  from j have "10 \<in> set (funcBlocks (irs s1)) \<and> code (irs s1) 9 = [Br 10]"
    by (auto simp: jumpToLabel_def f createBlock_def appendInst_def setCurrentUnresolvedGotos_def
          pendingGotosExample_def newScopeStack_def)
  with j r have "\<exists>s1. jumpToLabel 32 8 pendingGotosExample = Inr s1 \<and>
      10 \<in> set (funcBlocks (irs s1)) \<and> code (irs s1) 9 = [Br 10] \<and>
      10 \<notin> set (funcBlocks (irs (addLabelTarget 8 2 s1))) \<and>
      code (irs (addLabelTarget 8 2 s1)) 9 = [Br 2] \<and>
      code (irs (addLabelTarget 8 2 s1)) 10 = []"
    by (intro exI [of _ s1]) simp
  moreover have "map unresolvedGotos (cleanupScopes (addLabelTarget 9 5 gotoInTwoScopes)) = [[], []] \<and>
      topLevelUnresolvedGotos (addLabelTarget 9 5 gotoInTwoScopes) = [] \<and>
      code (irs (addLabelTarget 9 5 gotoInTwoScopes)) 0 = [Br 5]"
    using addLabelTarget_resolves [of 9 5 gotoInTwoScopes 0, THEN conjunct1]
    by (simp add: gotoInTwoScopes_def CleanupScope_def currentUnresolvedGotos_def
          placeholdersOf_def)
  moreover have "(\<exists>s1 s2. jumpToLabel 40 9 twoScopesExample = Inr s1 \<and>
        applyOps [OpPushLoopTarget 3 5 6, OpEmit (\<lambda>ir. ir\<lparr>scopebb := 5\<rparr>), OpJumpToLabel 41 8,
             OpEmit (\<lambda>ir. ir\<lparr>scopebb := 1\<rparr>), OpBreakToClosest, OpPopLoopTarget,
             OpAddLabelTarget 10 2, OpPopCleanups 2] s1 = Inr s2 \<and>
        code (irs s2) 0 = [Br 7] \<and> code (irs s2) 1 = [Br 6] \<and> code (irs s2) 5 = [Br 8] \<and>
        7 \<in> set (funcBlocks (irs s2)) \<and>
        7 \<notin> set (funcBlocks (irs (addLabelTarget 9 4 s2))) \<and>
        code (irs (addLabelTarget 9 4 s2)) 0 = [Br 4] \<and>
        code (irs (addLabelTarget 9 4 s2)) 5 = [Br 8] \<and>
        code (irs (addLabelTarget 9 4 s2)) 7 = [] \<and>
        map targetLabel (currentUnresolvedGotos (addLabelTarget 9 4 s2)) = [8])"
  proof -
    let ?ops = "[OpPushLoopTarget 3 5 6, OpEmit (\<lambda>ir. ir\<lparr>scopebb := 5\<rparr>), OpJumpToLabel 41 8,
               OpEmit (\<lambda>ir. ir\<lparr>scopebb := 1\<rparr>), OpBreakToClosest, OpPopLoopTarget,
               OpAddLabelTarget 10 2, OpPopCleanups 2]"
    have "\<exists>s1 s2. jumpToLabel 40 9 twoScopesExample = Inr s1 \<and> applyOps ?ops s1 = Inr s2 \<and>
        runKeepsScopes ?ops s1 \<and>
        code (irs s2) 0 = [Br 7] \<and> code (irs s2) 1 = [Br 6] \<and> code (irs s2) 5 = [Br 8] \<and>
        7 \<in> set (funcBlocks (irs s2)) \<and>
        map tentativeTarget (currentUnresolvedGotos s2) = [7, 8] \<and>
        map targetLabel (currentUnresolvedGotos s2) = [9, 8]"
      by (simp add: twoScopesExample_def ir_defs mux_defs stack_defs Let_def numeral_2_eq_2)
    then obtain s1 s2 where j: "jumpToLabel 40 9 twoScopesExample = Inr s1" and
        o: "applyOps ?ops s1 = Inr s2" and k: "runKeepsScopes ?ops s1" and
        c: "code (irs s2) 0 = [Br 7]" "code (irs s2) 1 = [Br 6]" "code (irs s2) 5 = [Br 8]"
           "7 \<in> set (funcBlocks (irs s2))" and
        t: "map tentativeTarget (currentUnresolvedGotos s2) = [7, 8]"
           "map targetLabel (currentUnresolvedGotos s2) = [9, 8]"
      by (elim exE conjE)
    from t obtain g1 g2 where gs: "currentUnresolvedGotos s2 = [g1, g2]"
        "tentativeTarget g1 = 7" "tentativeTarget g2 = 8" "targetLabel g1 = 9" "targetLabel g2 = 8"
      by (cases "currentUnresolvedGotos s2") auto
    have P: "placeholdersOf 9 (currentUnresolvedGotos s2) = {7}"
      by (simp add: placeholdersOf_def gs)
    have u: "labelTargets twoScopesExample 9 = None" "nextFresh (irs twoScopesExample) = 7"
      by (simp_all add: twoScopesExample_def stack_defs)
    have n: "\<forall>x \<in> set ?ops. \<not> definesLabel 9 x" by simp
    have nb: "4 \<notin> placeholdersOf 9 (currentUnresolvedGotos s2)" by (simp add: P)
    from addLabelTarget_resolves
           [where l = 9 and b = 4 and s = twoScopesExample and lc = 40 and ?s1.0 = s1
              and ops = ?ops and ?s2.0 = s2, THEN conjunct2, rule_format, unfolded u P]
         u(1) j o k n nb
    have r: "7 \<notin> set (funcBlocks (irs (addLabelTarget 9 4 s2)))"
        "code (irs (addLabelTarget 9 4 s2)) 7 = []"
        "\<forall>blk. blk \<notin> {7} \<longrightarrow>
           code (irs (addLabelTarget 9 4 s2)) blk = map (redirectInst {7} 4) (code (irs s2) blk)"
      by (simp_all add: P)
    from r(3) c have d: "code (irs (addLabelTarget 9 4 s2)) 0 = [Br 4]"
        "code (irs (addLabelTarget 9 4 s2)) 5 = [Br 8]"
      by simp_all
    have l: "map targetLabel (currentUnresolvedGotos (addLabelTarget 9 4 s2)) = [8]"
      by (simp add: addLabelTarget_current gs)
    from j o c r(1,2) d l show ?thesis
      by (intro exI [of _ s1] exI [of _ s2] conjI)
  qed
  ultimately show ?thesis using a b by simp
qed

end
